theory Spec2Isabelle
  imports Main "HOL-Library.AList" "HOL-Library.Product_Lexorder"
begin

section \<open>Data model of \<^verbatim>\<open>src/main.py\<close>\<close>

text \<open>
  The exceptions the module raises, each with the message given at the raise site.
  \<^verbatim>\<open>KeyError\<close> is what \<^verbatim>\<open>self.data[(r, c)]\<close> raises on a missing key.
\<close>

datatype error = ValueError string | IndexError string | Exception string | KeyError

text \<open>
  A coordinate is a pair of Python integers (unbounded, so \<^typ>\<open>int\<close>). The attribute
  \<^verbatim>\<open>data\<close> is a Python \<^verbatim>\<open>dict\<close>, which iterates in insertion order: it is modelled
  as an association list. \<^verbatim>\<open>d[k] = v\<close> overwrites the value in place when the key is
  present and appends the pair otherwise (\<^const>\<open>AList.update\<close>);
  \<^verbatim>\<open>d.pop(k, None)\<close> removes the key (\<^const>\<open>AList.delete\<close>);
  \<^verbatim>\<open>d.get(k, 0)\<close> is \<open>dict_get\<close>. A dict never holds a key twice, which is the
  predicate \<open>is_dict\<close>.
\<close>

type_synonym coord = "int \<times> int"

type_synonym py_dict = "(coord \<times> int) list"

record SparseMatrix =
  rows :: int
  cols :: int
  data :: py_dict

definition dict_get :: "('k \<times> int) list \<Rightarrow> 'k \<Rightarrow> int \<Rightarrow> int" where
  "dict_get d k dflt = (case map_of d k of None \<Rightarrow> dflt | Some v \<Rightarrow> v)"

definition is_dict :: "('k \<times> 'v) list \<Rightarrow> bool" where
  "is_dict d = distinct (map fst d)"

text \<open>\<^verbatim>\<open>SparseMatrix.__init__\<close>\<close>

definition matrix_init :: "int \<Rightarrow> int \<Rightarrow> SparseMatrix" where
  "matrix_init r c = \<lparr>rows = r, cols = c, data = []\<rparr>"

text \<open>\<^verbatim>\<open>SparseMatrix.get\<close>: a dictionary lookup with default 0, with no check of the
  coordinates.\<close>

definition get_at :: "SparseMatrix \<Rightarrow> int \<Rightarrow> int \<Rightarrow> int" where
  "get_at m row col = dict_get (data m) (row, col) 0"

text \<open>\<^verbatim>\<open>SparseMatrix.set\<close>: the object is mutated in place, so the model returns the
  updated matrix, or the \<^verbatim>\<open>IndexError\<close>.\<close>

definition set_at :: "SparseMatrix \<Rightarrow> int \<Rightarrow> int \<Rightarrow> int \<Rightarrow> error + SparseMatrix" where
  "set_at m row col val =
     (if \<not> (0 \<le> row \<and> row < rows m \<and> 0 \<le> col \<and> col < cols m)
      then Inl (IndexError ''Invalid matrix index'')
      else if val = 0 then Inr (m\<lparr>data := AList.delete (row, col) (data m)\<rparr>)
      else Inr (m\<lparr>data := AList.update (row, col) val (data m)\<rparr>))"

subsection \<open>Addition and subtraction\<close>

text \<open>The first loop of \<^verbatim>\<open>__add__\<close> and \<^verbatim>\<open>__sub__\<close>:
  \<^verbatim>\<open>for (r, c), val in self.data.items(): result.set(r, c, val)\<close>.\<close>

fun copy_entries :: "SparseMatrix \<Rightarrow> py_dict \<Rightarrow> error + SparseMatrix" where
  "copy_entries result [] = Inr result"
| "copy_entries result (((r, c), val) # items) =
     (case set_at result r c val of
        Inl e \<Rightarrow> Inl e
      | Inr result' \<Rightarrow> copy_entries result' items)"

text \<open>The second loop of \<^verbatim>\<open>__add__\<close>:
  \<^verbatim>\<open>for (r, c), val in other.data.items(): result.set(r, c, result.get(r, c) + val)\<close>.\<close>

fun add_entries :: "SparseMatrix \<Rightarrow> py_dict \<Rightarrow> error + SparseMatrix" where
  "add_entries result [] = Inr result"
| "add_entries result (((r, c), val) # items) =
     (case set_at result r c (get_at result r c + val) of
        Inl e \<Rightarrow> Inl e
      | Inr result' \<Rightarrow> add_entries result' items)"

text \<open>The second loop of \<^verbatim>\<open>__sub__\<close>, with \<^verbatim>\<open>result.get(r, c) - val\<close>.\<close>

fun sub_entries :: "SparseMatrix \<Rightarrow> py_dict \<Rightarrow> error + SparseMatrix" where
  "sub_entries result [] = Inr result"
| "sub_entries result (((r, c), val) # items) =
     (case set_at result r c (get_at result r c - val) of
        Inl e \<Rightarrow> Inl e
      | Inr result' \<Rightarrow> sub_entries result' items)"

text \<open>\<^verbatim>\<open>SparseMatrix.__add__\<close>\<close>

definition matrix_add :: "SparseMatrix \<Rightarrow> SparseMatrix \<Rightarrow> error + SparseMatrix" where
  "matrix_add self other =
     (if rows self \<noteq> rows other \<or> cols self \<noteq> cols other
      then Inl (ValueError ''Matrix dimensions must match'')
      else case copy_entries (matrix_init (rows self) (cols self)) (data self) of
             Inl e \<Rightarrow> Inl e
           | Inr result \<Rightarrow> add_entries result (data other))"

text \<open>\<^verbatim>\<open>SparseMatrix.__sub__\<close>\<close>

definition matrix_sub :: "SparseMatrix \<Rightarrow> SparseMatrix \<Rightarrow> error + SparseMatrix" where
  "matrix_sub self other =
     (if rows self \<noteq> rows other \<or> cols self \<noteq> cols other
      then Inl (ValueError ''Matrix dimensions must match'')
      else case copy_entries (matrix_init (rows self) (cols self)) (data self) of
             Inl e \<Rightarrow> Inl e
           | Inr result \<Rightarrow> sub_entries result (data other))"

subsection \<open>Multiplication\<close>

text \<open>
  \<^verbatim>\<open>other_map.setdefault(r, []).append((c, val))\<close>: the row index is a dict from a row
  to the list of its (column, value) pairs, in the order they were met.
\<close>

type_synonym row_index = "(int \<times> (int \<times> int) list) list"

definition setdefault_append :: "row_index \<Rightarrow> int \<Rightarrow> int \<times> int \<Rightarrow> row_index" where
  "setdefault_append other_map r p =
     (case map_of other_map r of
        None \<Rightarrow> AList.update r [p] other_map
      | Some ps \<Rightarrow> AList.update r (ps @ [p]) other_map)"

fun build_other_map :: "row_index \<Rightarrow> py_dict \<Rightarrow> row_index" where
  "build_other_map other_map [] = other_map"
| "build_other_map other_map (((r, c), val) # items) =
     build_other_map (setdefault_append other_map r (c, val)) items"

text \<open>The inner loop
  \<^verbatim>\<open>for j, val2 in other_map[k]: result.set(i, j, result.get(i, j) + val1 * val2)\<close>.\<close>

fun mul_row :: "SparseMatrix \<Rightarrow> int \<Rightarrow> int \<Rightarrow> (int \<times> int) list \<Rightarrow> error + SparseMatrix" where
  "mul_row result i val1 [] = Inr result"
| "mul_row result i val1 ((j, val2) # ps) =
     (case set_at result i j (get_at result i j + val1 * val2) of
        Inl e \<Rightarrow> Inl e
      | Inr result' \<Rightarrow> mul_row result' i val1 ps)"

text \<open>The outer loop
  \<^verbatim>\<open>for (i, k), val1 in self.data.items(): if k in other_map: ...\<close>.\<close>

fun mul_entries :: "SparseMatrix \<Rightarrow> row_index \<Rightarrow> py_dict \<Rightarrow> error + SparseMatrix" where
  "mul_entries result other_map [] = Inr result"
| "mul_entries result other_map (((i, k), val1) # items) =
     (case map_of other_map k of
        None \<Rightarrow> mul_entries result other_map items
      | Some ps \<Rightarrow>
          (case mul_row result i val1 ps of
             Inl e \<Rightarrow> Inl e
           | Inr result' \<Rightarrow> mul_entries result' other_map items))"

text \<open>\<^verbatim>\<open>SparseMatrix.__matmul__\<close>\<close>

definition matrix_matmul :: "SparseMatrix \<Rightarrow> SparseMatrix \<Rightarrow> error + SparseMatrix" where
  "matrix_matmul self other =
     (if cols self \<noteq> rows other
      then Inl (ValueError ''Matrix dimensions not aligned for multiplication'')
      else mul_entries (matrix_init (rows self) (cols other))
             (build_other_map [] (data other)) (data self))"

subsection \<open>Strings\<close>

text \<open>
  A Python string is a sequence of Unicode code points. A character of the model is a
  code point below 256, so the model covers the text whose code points are all below
  256. \<open>is_space\<close> holds for the code points below 256 that \<^verbatim>\<open>str.isspace\<close> accepts and
  \<^verbatim>\<open>str.strip()\<close> removes: tab, line feed, vertical tab, form feed, carriage return, the
  four separators 0x1C to 0x1F, the space, the next-line character 0x85 and the
  no-break space 0xA0.
\<close>

definition is_space :: "char \<Rightarrow> bool" where
  "is_space c = (c \<in> set [CHR 0x09, CHR 0x0A, CHR 0x0B, CHR 0x0C, CHR 0x0D,
                           CHR 0x1C, CHR 0x1D, CHR 0x1E, CHR 0x1F, CHR 0x20,
                           CHR 0x85, CHR 0xA0])"

text \<open>\<^verbatim>\<open>s.strip()\<close>\<close>

definition strip :: "string \<Rightarrow> string" where
  "strip s = rev (dropWhile is_space (rev (dropWhile is_space s)))"

text \<open>\<^verbatim>\<open>s.startswith(p)\<close> and \<^verbatim>\<open>s.endswith(p)\<close>\<close>

definition startswith :: "string \<Rightarrow> string \<Rightarrow> bool" where
  "startswith s p = (take (length p) s = p)"

definition endswith :: "string \<Rightarrow> string \<Rightarrow> bool" where
  "endswith s p = (length p \<le> length s \<and> drop (length s - length p) s = p)"

text \<open>\<^verbatim>\<open>s.split(sep)\<close> for a separator of one character: the empty string gives one
  empty piece.\<close>

fun split_on :: "char \<Rightarrow> string \<Rightarrow> string list" where
  "split_on sep [] = [[]]"
| "split_on sep (c # cs) =
     (if c = sep then [] # split_on sep cs
      else (case split_on sep cs of
              [] \<Rightarrow> [[c]]
            | w # ws \<Rightarrow> (c # w) # ws))"

text \<open>\<^verbatim>\<open>sep.join(pieces)\<close>\<close>

fun join :: "string \<Rightarrow> string list \<Rightarrow> string" where
  "join sep [] = []"
| "join sep [x] = x"
| "join sep (x # y # zs) = x @ sep @ join sep (y # zs)"

text \<open>
  Iterating over a file opened in text mode yields its lines, ended at a line feed;
  a carriage return, alone or before a line feed, is read as a line feed. The pieces
  between these characters are the lines; the empty pieces that the translation of a
  carriage return and line feed pair adds are dropped by the caller, which keeps only
  the lines that are not blank.
\<close>

fun file_lines :: "string \<Rightarrow> string list" where
  "file_lines [] = [[]]"
| "file_lines (c # cs) =
     (if c = CHR 0x0A \<or> c = CHR 0x0D then [] # file_lines cs
      else (case file_lines cs of
              [] \<Rightarrow> [[c]]
            | w # ws \<Rightarrow> (c # w) # ws))"

subsection \<open>Integers and text\<close>

text \<open>
  The interpreter bounds the number of decimal digits of a conversion between an
  integer and a string. The bound is a setting of the interpreter
  (\<^verbatim>\<open>sys.get_int_max_str_digits()\<close>, 4300 unless it is changed), which the module does not
  set, so it is a parameter \<open>lim\<close> of the model. The interpreter takes 0, which is no
  bound, or a number of at least 640. A conversion of \<open>d\<close> digits is refused when
  \<open>over_limit lim d\<close>.
\<close>

definition over_limit :: "nat \<Rightarrow> nat \<Rightarrow> bool" where
  "over_limit lim d = (0 < lim \<and> lim < d)"

definition is_digit :: "char \<Rightarrow> bool" where
  "is_digit c = (c \<in> set ''0123456789'')"

definition digit_val :: "char \<Rightarrow> nat" where
  "digit_val c = of_char c - 48"

definition digit_char :: "nat \<Rightarrow> char" where
  "digit_char n = ''0123456789'' ! n"

text \<open>
  The whitespace that \<^verbatim>\<open>int()\<close> skips at the two ends of its argument is not that of
  \<^verbatim>\<open>str.strip()\<close>: of the code points below 128 it skips tab, line feed, vertical tab,
  form feed, carriage return and the space only, and it reads the spaces 0x85 and 0xA0
  as a space.
\<close>

definition int_space :: "char \<Rightarrow> bool" where
  "int_space c = (c \<in> set [CHR 0x09, CHR 0x0A, CHR 0x0B, CHR 0x0C, CHR 0x0D, CHR 0x20,
                            CHR 0x85, CHR 0xA0])"

definition int_strip :: "string \<Rightarrow> string" where
  "int_strip s = rev (dropWhile int_space (rev (dropWhile int_space s)))"

text \<open>
  \<^verbatim>\<open>int(s)\<close> on a string: the whitespace at the ends is skipped, one sign is allowed, and
  the rest is a non-empty run of decimal digits in which single underscores may
  separate digits. The digits, leading zeros among them and underscores apart, are
  counted against the bound. Anything else raises \<^verbatim>\<open>ValueError\<close>, which is \<open>None\<close> here:
  both callers catch the exception whatever its message. \<open>int_digits\<close> reads what
  follows the first digit.
\<close>

fun int_digits :: "string \<Rightarrow> nat \<Rightarrow> nat option" where
  "int_digits [] acc = Some acc"
| "int_digits (c # cs) acc =
     (if is_digit c then int_digits cs (10 * acc + digit_val c)
      else if c = CHR ''_'' then
        (case cs of
           [] \<Rightarrow> None
         | d # ds \<Rightarrow> if is_digit d then int_digits ds (10 * acc + digit_val d) else None)
      else None)"

definition parse_nat :: "nat \<Rightarrow> string \<Rightarrow> nat option" where
  "parse_nat lim s =
     (if over_limit lim (length (filter is_digit s)) then None
      else (case s of
              [] \<Rightarrow> None
            | c # cs \<Rightarrow> if is_digit c then int_digits cs (digit_val c) else None))"

definition py_int :: "nat \<Rightarrow> string \<Rightarrow> int option" where
  "py_int lim s =
     (case int_strip s of
        [] \<Rightarrow> None
      | c # cs \<Rightarrow>
          if c = CHR ''-'' then map_option (\<lambda>n. - int n) (parse_nat lim cs)
          else if c = CHR ''+'' then map_option int (parse_nat lim cs)
          else map_option int (parse_nat lim (c # cs)))"

text \<open>The decimal text of a natural number and of an integer.\<close>

fun str_nat :: "nat \<Rightarrow> string" where
  "str_nat n = (if n < 10 then [digit_char n] else str_nat (n div 10) @ [digit_char (n mod 10)])"

declare str_nat.simps [simp del]

definition str_int :: "int \<Rightarrow> string" where
  "str_int i = (if i < 0 then CHR ''-'' # str_nat (nat (- i)) else str_nat (nat i))"

text \<open>
  The conversion of an integer that an f-string makes, \<^verbatim>\<open>format(n, '')\<close>: the decimal
  text, or the \<^verbatim>\<open>ValueError\<close> of the interpreter when the digits, the sign apart, are
  more than the bound allows. \<open>fits lim i\<close> says that \<open>i\<close> is within the bound.
\<close>

definition limit_message :: "nat \<Rightarrow> string" where
  "limit_message lim =
     ''Exceeds the limit ('' @ str_nat lim @
     '' digits) for integer string conversion; use sys.set_int_max_str_digits() to increase the limit''"

definition fits :: "nat \<Rightarrow> int \<Rightarrow> bool" where
  "fits lim i = (\<not> over_limit lim (length (str_nat (nat \<bar>i\<bar>))))"

definition format_int :: "nat \<Rightarrow> int \<Rightarrow> error + string" where
  "format_int lim i =
     (if over_limit lim (length (str_nat (nat \<bar>i\<bar>))) then Inl (ValueError (limit_message lim))
      else Inr (str_int i))"

text \<open>The number that a string of decimal digits denotes, read from the left.\<close>

definition dec_value :: "nat \<Rightarrow> string \<Rightarrow> nat" where
  "dec_value acc ds = foldl (\<lambda>a c. 10 * a + digit_val c) acc ds"

subsection \<open>Serialisation\<close>

text \<open>
  The line \<^verbatim>\<open>f"({r}, {c}, {self.data[(r, c)]})"\<close>. An f-string converts each field as it
  comes to it: the row, the column, and then the value, which the subscript
  \<^verbatim>\<open>self.data[(r, c)]\<close> reads first, with \<^verbatim>\<open>KeyError\<close> on a key that the dictionary
  lacks.
\<close>

definition format_entry :: "nat \<Rightarrow> py_dict \<Rightarrow> int \<Rightarrow> int \<Rightarrow> error + string" where
  "format_entry lim d r c =
     (case format_int lim r of
        Inl e \<Rightarrow> Inl e
      | Inr sr \<Rightarrow>
          (case format_int lim c of
             Inl e \<Rightarrow> Inl e
           | Inr sc \<Rightarrow>
               (case map_of d (r, c) of
                  None \<Rightarrow> Inl KeyError
                | Some v \<Rightarrow>
                    (case format_int lim v of
                       Inl e \<Rightarrow> Inl e
                     | Inr sv \<Rightarrow> Inr (''('' @ sr @ '', '' @ sc @ '', '' @ sv @ '')'')))))"

text \<open>The loop \<^verbatim>\<open>for (r, c) in sorted(self.data): output.append(...)\<close>.\<close>

fun entry_lines :: "nat \<Rightarrow> py_dict \<Rightarrow> coord list \<Rightarrow> error + string list" where
  "entry_lines lim d [] = Inr []"
| "entry_lines lim d ((r, c) # ks) =
     (case format_entry lim d r c of
        Inl e \<Rightarrow> Inl e
      | Inr l \<Rightarrow>
          (case entry_lines lim d ks of
             Inl e \<Rightarrow> Inl e
           | Inr ls \<Rightarrow> Inr (l # ls)))"

text \<open>
  \<^verbatim>\<open>SparseMatrix.__str__\<close>. The two header lines are formatted first. \<^verbatim>\<open>sorted(self.data)\<close>
  sorts the keys as Python compares tuples, by row and then by column, which is the
  lexicographic order of pairs.
\<close>

definition matrix_str :: "nat \<Rightarrow> SparseMatrix \<Rightarrow> error + string" where
  "matrix_str lim m =
     (case format_int lim (rows m) of
        Inl e \<Rightarrow> Inl e
      | Inr sr \<Rightarrow>
          (case format_int lim (cols m) of
             Inl e \<Rightarrow> Inl e
           | Inr sc \<Rightarrow>
               (case entry_lines lim (data m) (sort (map fst (data m))) of
                  Inl e \<Rightarrow> Inl e
                | Inr ls \<Rightarrow> Inr (join [CHR 0x0A] ([''rows='' @ sr, ''cols='' @ sc] @ ls)))))"

text \<open>
  The entries of a dictionary in the order of \<^verbatim>\<open>sorted(self.data)\<close>, the line of one
  entry when every field is within the bound, and the strict order of coordinates by
  row and then by column.
\<close>

definition sorted_items :: "py_dict \<Rightarrow> (coord \<times> int) list" where
  "sorted_items d = map (\<lambda>k. (k, dict_get d k 0)) (sort (map fst d))"

definition entry_text :: "int \<Rightarrow> int \<Rightarrow> int \<Rightarrow> string" where
  "entry_text r c v = ''('' @ str_int r @ '', '' @ str_int c @ '', '' @ str_int v @ '')''"

definition entry_line :: "coord \<times> int \<Rightarrow> string" where
  "entry_line e = (case e of ((r, c), v) \<Rightarrow> entry_text r c v)"

definition row_major :: "coord \<Rightarrow> coord \<Rightarrow> bool" where
  "row_major a b = (fst a < fst b \<or> (fst a = fst b \<and> snd a < snd b))"

text \<open>A line that \<^verbatim>\<open>load_from\<close> reads back as it was written: not empty, without
  whitespace at its ends, and without a line break inside.\<close>

definition clean_line :: "string \<Rightarrow> bool" where
  "clean_line l = (l \<noteq> [] \<and> strip l = l \<and> CHR 0x0A \<notin> set l \<and> CHR 0x0D \<notin> set l)"

text \<open>The two extents and every stored value of a matrix are within the bound.\<close>

definition all_fit :: "nat \<Rightarrow> SparseMatrix \<Rightarrow> bool" where
  "all_fit lim m =
     (fits lim (rows m) \<and> fits lim (cols m) \<and> list_all (\<lambda>(k, v). fits lim v) (data m))"

subsection \<open>Deserialisation\<close>

text \<open>\<^verbatim>\<open>int(line.split("=")[1])\<close>, with every exception as \<open>None\<close>.\<close>

definition header_int :: "nat \<Rightarrow> string \<Rightarrow> int option" where
  "header_int lim l =
     (case split_on CHR ''='' l of
        _ # x # _ \<Rightarrow> py_int lim x
      | _ \<Rightarrow> None)"

text \<open>\<^verbatim>\<open>r, c, v = map(lambda x: int(x.strip()), entry[1:-1].split(","))\<close>, with every
  exception (a conversion that fails, fewer or more than three fields) as \<open>None\<close>.\<close>

definition parse_triple :: "nat \<Rightarrow> string \<Rightarrow> (int \<times> int \<times> int) option" where
  "parse_triple lim s =
     (case map (\<lambda>x. py_int lim (strip x)) (split_on CHR '','' s) of
        [Some r, Some c, Some v] \<Rightarrow> Some (r, c, v)
      | _ \<Rightarrow> None)"

text \<open>The loop \<^verbatim>\<open>for entry in lines[2:]\<close> of \<^verbatim>\<open>load_from\<close>; \<^verbatim>\<open>entry[1:-1]\<close> is the entry
  without its first and last character.\<close>

fun load_entries ::
  "nat \<Rightarrow> SparseMatrix \<Rightarrow> int \<Rightarrow> int \<Rightarrow> string list \<Rightarrow> error + SparseMatrix" where
  "load_entries lim matrix num_rows num_cols [] = Inr matrix"
| "load_entries lim matrix num_rows num_cols (entry # entries) =
     (if \<not> (startswith entry ''('' \<and> endswith entry '')'')
      then Inl (ValueError ''Invalid file format'')
      else case parse_triple lim (butlast (tl entry)) of
             None \<Rightarrow> Inl (ValueError ''Invalid file format'')
           | Some (r, c, v) \<Rightarrow>
               if \<not> (0 \<le> r \<and> r < num_rows \<and> 0 \<le> c \<and> c < num_cols)
               then Inl (ValueError ''Invalid file format'')
               else (case set_at matrix r c v of
                       Inl e \<Rightarrow> Inl e
                     | Inr matrix' \<Rightarrow> load_entries lim matrix' num_rows num_cols entries))"

text \<open>
  \<^verbatim>\<open>SparseMatrix.load_from\<close>. The files give, for a file name, either the decoded text
  of the file or the text of the exception that opening or reading it raises.
  \<open>stripped_lines\<close> is \<^verbatim>\<open>[line.strip() for line in f if line.strip()]\<close>.
\<close>

definition stripped_lines :: "string \<Rightarrow> string list" where
  "stripped_lines content = filter (\<lambda>l. l \<noteq> []) (map strip (file_lines content))"

definition load_from ::
  "nat \<Rightarrow> (string \<Rightarrow> string + string) \<Rightarrow> string \<Rightarrow> error + SparseMatrix" where
  "load_from lim files filename =
     (case files filename of
        Inl reason \<Rightarrow> Inl (Exception (''Failed to open file: '' @ reason))
      | Inr content \<Rightarrow>
          (let lines = stripped_lines content in
           if length lines < 2 \<or> \<not> startswith (lines ! 0) ''rows=''
              \<or> \<not> startswith (lines ! 1) ''cols=''
           then Inl (ValueError ''Input file has wrong format'')
           else (case (header_int lim (lines ! 0), header_int lim (lines ! 1)) of
                   (Some num_rows, Some num_cols) \<Rightarrow>
                     load_entries lim (matrix_init num_rows num_cols) num_rows num_cols
                       (drop 2 lines)
                 | _ \<Rightarrow> Inl (ValueError ''Input file has wrong format''))))"

text \<open>
  The ways in which \<^verbatim>\<open>load_from\<close> turns down the lines it has read. The header is
  rejected when there are fewer than two lines, when a prefix is missing, or when
  \<^verbatim>\<open>int\<close> does not accept the field that it is given. An entry line is malformed when it
  lacks the parentheses or does not hold three integers, and out of range when its row
  or column is outside the extents of the header.
\<close>

definition header_rejected :: "nat \<Rightarrow> string list \<Rightarrow> bool" where
  "header_rejected lim ls =
     (length ls < 2 \<or> \<not> startswith (ls ! 0) ''rows='' \<or> \<not> startswith (ls ! 1) ''cols=''
      \<or> header_int lim (ls ! 0) = None \<or> header_int lim (ls ! 1) = None)"

definition malformed_entry :: "nat \<Rightarrow> string \<Rightarrow> bool" where
  "malformed_entry lim l =
     (\<not> (startswith l ''('' \<and> endswith l '')'') \<or> parse_triple lim (butlast (tl l)) = None)"

definition out_of_range_entry :: "nat \<Rightarrow> int \<Rightarrow> int \<Rightarrow> string \<Rightarrow> bool" where
  "out_of_range_entry lim nr nc l =
     (startswith l ''('' \<and> endswith l '')'' \<and>
      (case parse_triple lim (butlast (tl l)) of
         None \<Rightarrow> False
       | Some (r, c, v) \<Rightarrow> \<not> (0 \<le> r \<and> r < nr \<and> 0 \<le> c \<and> c < nc)))"

subsection \<open>The operations on a store of objects\<close>

text \<open>
  The methods mutate objects, and \<^verbatim>\<open>self\<close>, \<^verbatim>\<open>other\<close> and \<^verbatim>\<open>result\<close> are references.
  To speak of what a call does to its operands, the objects live in a store: a reference
  is an address, the store lists the object at each address, and creating an object
  appends it, so the new address is one that no reference held before. Each function
  returns the store it leaves, also when it raises.
\<close>

type_synonym ref = nat

type_synonym store = "SparseMatrix list"

text \<open>\<^verbatim>\<open>SparseMatrix(rows, cols)\<close>\<close>

definition store_new :: "store \<Rightarrow> int \<Rightarrow> int \<Rightarrow> ref \<times> store" where
  "store_new s r c = (length s, s @ [matrix_init r c])"

text \<open>\<^verbatim>\<open>obj.get(row, col)\<close> and \<^verbatim>\<open>obj.set(row, col, value)\<close> on the object at a reference.\<close>

definition store_get :: "store \<Rightarrow> ref \<Rightarrow> int \<Rightarrow> int \<Rightarrow> int" where
  "store_get s p row col = get_at (s ! p) row col"

definition store_set :: "store \<Rightarrow> ref \<Rightarrow> int \<Rightarrow> int \<Rightarrow> int \<Rightarrow> (error + unit) \<times> store" where
  "store_set s p row col val =
     (case set_at (s ! p) row col val of
        Inl e \<Rightarrow> (Inl e, s)
      | Inr m \<Rightarrow> (Inr (), s[p := m]))"

text \<open>The loops of \<^verbatim>\<open>__add__\<close>, \<^verbatim>\<open>__sub__\<close> and \<^verbatim>\<open>__matmul__\<close>, each call of
  \<^verbatim>\<open>result.set\<close> being a write to the store at the address \<open>result\<close>.\<close>

fun store_copy_entries :: "store \<Rightarrow> ref \<Rightarrow> py_dict \<Rightarrow> (error + unit) \<times> store" where
  "store_copy_entries s result [] = (Inr (), s)"
| "store_copy_entries s result (((r, c), val) # items) =
     (case store_set s result r c val of
        (Inl e, s') \<Rightarrow> (Inl e, s')
      | (Inr u, s') \<Rightarrow> store_copy_entries s' result items)"

fun store_add_entries :: "store \<Rightarrow> ref \<Rightarrow> py_dict \<Rightarrow> (error + unit) \<times> store" where
  "store_add_entries s result [] = (Inr (), s)"
| "store_add_entries s result (((r, c), val) # items) =
     (case store_set s result r c (store_get s result r c + val) of
        (Inl e, s') \<Rightarrow> (Inl e, s')
      | (Inr u, s') \<Rightarrow> store_add_entries s' result items)"

fun store_sub_entries :: "store \<Rightarrow> ref \<Rightarrow> py_dict \<Rightarrow> (error + unit) \<times> store" where
  "store_sub_entries s result [] = (Inr (), s)"
| "store_sub_entries s result (((r, c), val) # items) =
     (case store_set s result r c (store_get s result r c - val) of
        (Inl e, s') \<Rightarrow> (Inl e, s')
      | (Inr u, s') \<Rightarrow> store_sub_entries s' result items)"

fun store_mul_row ::
  "store \<Rightarrow> ref \<Rightarrow> int \<Rightarrow> int \<Rightarrow> (int \<times> int) list \<Rightarrow> (error + unit) \<times> store" where
  "store_mul_row s result i val1 [] = (Inr (), s)"
| "store_mul_row s result i val1 ((j, val2) # ps) =
     (case store_set s result i j (store_get s result i j + val1 * val2) of
        (Inl e, s') \<Rightarrow> (Inl e, s')
      | (Inr u, s') \<Rightarrow> store_mul_row s' result i val1 ps)"

fun store_mul_entries ::
  "store \<Rightarrow> ref \<Rightarrow> row_index \<Rightarrow> py_dict \<Rightarrow> (error + unit) \<times> store" where
  "store_mul_entries s result other_map [] = (Inr (), s)"
| "store_mul_entries s result other_map (((i, k), val1) # items) =
     (case map_of other_map k of
        None \<Rightarrow> store_mul_entries s result other_map items
      | Some ps \<Rightarrow>
          (case store_mul_row s result i val1 ps of
             (Inl e, s') \<Rightarrow> (Inl e, s')
           | (Inr u, s') \<Rightarrow> store_mul_entries s' result other_map items))"

text \<open>\<^verbatim>\<open>self + other\<close>, \<^verbatim>\<open>self - other\<close> and \<^verbatim>\<open>self @ other\<close> on references: the outcome
  is the exception or the reference of the result, with the store that the call leaves.\<close>

definition store_add :: "store \<Rightarrow> ref \<Rightarrow> ref \<Rightarrow> (error + ref) \<times> store" where
  "store_add s self other =
     (if rows (s ! self) \<noteq> rows (s ! other) \<or> cols (s ! self) \<noteq> cols (s ! other)
      then (Inl (ValueError ''Matrix dimensions must match''), s)
      else (case store_new s (rows (s ! self)) (cols (s ! self)) of
              (result, s1) \<Rightarrow>
                (case store_copy_entries s1 result (data (s1 ! self)) of
                   (Inl e, s2) \<Rightarrow> (Inl e, s2)
                 | (Inr u, s2) \<Rightarrow>
                     (case store_add_entries s2 result (data (s2 ! other)) of
                        (Inl e, s3) \<Rightarrow> (Inl e, s3)
                      | (Inr u, s3) \<Rightarrow> (Inr result, s3)))))"

definition store_sub :: "store \<Rightarrow> ref \<Rightarrow> ref \<Rightarrow> (error + ref) \<times> store" where
  "store_sub s self other =
     (if rows (s ! self) \<noteq> rows (s ! other) \<or> cols (s ! self) \<noteq> cols (s ! other)
      then (Inl (ValueError ''Matrix dimensions must match''), s)
      else (case store_new s (rows (s ! self)) (cols (s ! self)) of
              (result, s1) \<Rightarrow>
                (case store_copy_entries s1 result (data (s1 ! self)) of
                   (Inl e, s2) \<Rightarrow> (Inl e, s2)
                 | (Inr u, s2) \<Rightarrow>
                     (case store_sub_entries s2 result (data (s2 ! other)) of
                        (Inl e, s3) \<Rightarrow> (Inl e, s3)
                      | (Inr u, s3) \<Rightarrow> (Inr result, s3)))))"

definition store_matmul :: "store \<Rightarrow> ref \<Rightarrow> ref \<Rightarrow> (error + ref) \<times> store" where
  "store_matmul s self other =
     (if cols (s ! self) \<noteq> rows (s ! other)
      then (Inl (ValueError ''Matrix dimensions not aligned for multiplication''), s)
      else (case store_new s (rows (s ! self)) (cols (s ! other)) of
              (result, s1) \<Rightarrow>
                (case store_mul_entries s1 result (build_other_map [] (data (s1 ! other)))
                        (data (s1 ! self)) of
                   (Inl e, s2) \<Rightarrow> (Inl e, s2)
                 | (Inr u, s2) \<Rightarrow> (Inr result, s2))))"

text \<open>
  What a call leaves of a store \<open>s\<close>: every object of \<open>s\<close> is unchanged in \<open>s'\<close>, and a
  result, when there is one, is an object at an address that \<open>s\<close> did not have and that
  differs from both operands. \<open>outcome\<close> reads the result object out of the store.
\<close>

definition operands_kept :: "store \<Rightarrow> ref \<Rightarrow> ref \<Rightarrow> (error + ref) \<times> store \<Rightarrow> bool" where
  "operands_kept s a b out =
     (case out of
        (res, s') \<Rightarrow>
          length s \<le> length s' \<and> take (length s) s' = s \<and>
          (case res of
             Inl e \<Rightarrow> True
           | Inr r \<Rightarrow> length s \<le> r \<and> r < length s' \<and> r \<noteq> a \<and> r \<noteq> b))"

definition outcome :: "(error + ref) \<times> store \<Rightarrow> error + SparseMatrix" where
  "outcome out = (case out of (Inl e, s') \<Rightarrow> Inl e | (Inr r, s') \<Rightarrow> Inr (s' ! r))"

text \<open>
  A loop that works on the object at \<open>p\<close> runs as a loop on a matrix value when it
  leaves every other object alone and either raises the same exception or leaves at
  \<open>p\<close> the matrix that the loop on the value returns.
\<close>

definition runs_as :: "store \<Rightarrow> ref \<Rightarrow> (error + unit) \<times> store \<Rightarrow> (error + SparseMatrix) \<Rightarrow> bool" where
  "runs_as s p out pure =
     (case out of
        (res, s') \<Rightarrow>
          length s' = length s \<and> (\<forall>q. q \<noteq> p \<longrightarrow> s' ! q = s ! q) \<and>
          (case res of Inl e \<Rightarrow> pure = Inl e | Inr u \<Rightarrow> pure = Inr (s' ! p)))"

subsection \<open>Invariants of the data model\<close>

text \<open>Every coordinate of a list of entries lies within the extents \<open>nr\<close> and \<open>nc\<close>.\<close>

definition keys_in :: "int \<Rightarrow> int \<Rightarrow> (coord \<times> 'v) list \<Rightarrow> bool" where
  "keys_in nr nc xs = list_all (\<lambda>((r, c), v). 0 \<le> r \<and> r < nr \<and> 0 \<le> c \<and> c < nc) xs"

text \<open>Every stored coordinate lies within the extents of the matrix.\<close>

definition in_bounds :: "SparseMatrix \<Rightarrow> bool" where
  "in_bounds m = keys_in (rows m) (cols m) (data m)"

text \<open>No stored value is zero.\<close>

definition nonzero :: "SparseMatrix \<Rightarrow> bool" where
  "nonzero m = list_all (\<lambda>(k, v). v \<noteq> 0) (data m)"

definition valid :: "SparseMatrix \<Rightarrow> bool" where
  "valid m = (is_dict (data m) \<and> in_bounds m \<and> nonzero m)"

text \<open>The coordinates that have a stored entry.\<close>

definition stored :: "SparseMatrix \<Rightarrow> coord set" where
  "stored m = fst ` set (data m)"

text \<open>
  The matrices that the module can produce: by construction, by a \<^verbatim>\<open>set\<close> call that
  succeeds, by loading a file, and by the three arithmetic operations on matrices
  produced so.
\<close>

inductive reachable :: "SparseMatrix \<Rightarrow> bool" where
  by_init: "reachable (matrix_init r c)"
| by_set: "reachable m \<Longrightarrow> set_at m r c v = Inr m' \<Longrightarrow> reachable m'"
| by_load: "load_from lim files filename = Inr m \<Longrightarrow> reachable m"
| by_add: "reachable a \<Longrightarrow> reachable b \<Longrightarrow> matrix_add a b = Inr m \<Longrightarrow> reachable m"
| by_sub: "reachable a \<Longrightarrow> reachable b \<Longrightarrow> matrix_sub a b = Inr m \<Longrightarrow> reachable m"
| by_matmul: "reachable a \<Longrightarrow> reachable b \<Longrightarrow> matrix_matmul a b = Inr m \<Longrightarrow> reachable m"

subsection \<open>Notions used to state the properties\<close>

text \<open>
  The second loop of \<^verbatim>\<open>__add__\<close> and of \<^verbatim>\<open>__sub__\<close> and the inner loop of
  \<^verbatim>\<open>__matmul__\<close> have one shape: for each pair of a coordinate and an increment,
  \<^verbatim>\<open>result.set(r, c, result.get(r, c) + d)\<close>. \<open>accumulate\<close> is that shape, and
  \<open>delta_sum xs k\<close> is the sum of the increments that a list holds for \<open>k\<close>.
\<close>

fun accumulate :: "SparseMatrix \<Rightarrow> (coord \<times> int) list \<Rightarrow> error + SparseMatrix" where
  "accumulate result [] = Inr result"
| "accumulate result (((r, c), d) # xs) =
     (case set_at result r c (get_at result r c + d) of
        Inl e \<Rightarrow> Inl e
      | Inr result' \<Rightarrow> accumulate result' xs)"

definition delta_sum :: "('k \<times> int) list \<Rightarrow> 'k \<Rightarrow> int" where
  "delta_sum xs k = (\<Sum>(k', v)\<leftarrow>xs. if k' = k then v else 0)"

text \<open>The increments that the two nested loops of \<^verbatim>\<open>__matmul__\<close> apply, in order.\<close>

definition products :: "row_index \<Rightarrow> py_dict \<Rightarrow> (coord \<times> int) list" where
  "products other_map items =
     concat (map (\<lambda>((i, k), val1).
        case map_of other_map k of
          None \<Rightarrow> []
        | Some ps \<Rightarrow> map (\<lambda>(j, val2). ((i, j), val1 * val2)) ps) items)"

text \<open>
  The mathematical entry of a product, in the words of the specification: the sum over
  \<open>k\<close> of \<open>A.get(i, k) * B.get(k, j)\<close>, with \<open>k\<close> ranging over the columns of \<open>A\<close>.
\<close>

definition dot_product :: "SparseMatrix \<Rightarrow> SparseMatrix \<Rightarrow> int \<Rightarrow> int \<Rightarrow> int" where
  "dot_product A B i j = (\<Sum>k\<in>{0..<cols A}. get_at A i k * get_at B k j)"

text \<open>The sum of the values that the row index holds for row \<open>k\<close> and column \<open>j\<close>.\<close>

definition row_sum :: "row_index \<Rightarrow> int \<Rightarrow> int \<Rightarrow> int" where
  "row_sum om k j = (case map_of om k of None \<Rightarrow> 0 | Some ps \<Rightarrow> delta_sum ps j)"

subsection \<open>Example matrices\<close>

text \<open>The operands of the specification's scenario: a 1 x 2 and a 2 x 1 matrix.\<close>

definition ex_A :: SparseMatrix where
  "ex_A = \<lparr>rows = 1, cols = 2, data = [((0, 0), 3), ((0, 1), 4)]\<rparr>"

definition ex_B :: SparseMatrix where
  "ex_B = \<lparr>rows = 2, cols = 1, data = [((0, 0), 5), ((1, 0), 6)]\<rparr>"

text \<open>Two 2 x 2 matrices that share a coordinate and cancel there when added.\<close>

definition ex_P :: SparseMatrix where
  "ex_P = \<lparr>rows = 2, cols = 2, data = [((0, 0), 1), ((1, 1), 2)]\<rparr>"

definition ex_Q :: SparseMatrix where
  "ex_Q = \<lparr>rows = 2, cols = 2, data = [((1, 1), - 2), ((0, 1), 5)]\<rparr>"

text \<open>
  Files for the examples: what \<^verbatim>\<open>__str__\<close> gives for \<open>ex_Q\<close>, an entry out of range, an
  entry that lacks a field, a negative extent, and an extent that is no integer. Every
  other name is a file that does not exist.
\<close>

definition ex_files :: "string \<Rightarrow> string + string" where
  "ex_files name =
     (case map_of
        [(''q.txt'', ''rows=2\<newline>cols=2\<newline>(0, 1, 5)\<newline>(1, 1, -2)''),
         (''far.txt'', ''rows=3\<newline>cols=3\<newline>(5, 0, 1)''),
         (''short.txt'', ''rows=3\<newline>cols=3\<newline>(1,2)''),
         (''neg.txt'', ''rows=-3\<newline>cols=2''),
         (''word.txt'', ''rows=three\<newline>cols=2'')] name of
        None \<Rightarrow> Inl ''[Errno 2] No such file or directory''
      | Some content \<Rightarrow> Inr content)"

text \<open>A valid 1 x 1 matrix whose value has 4301 digits, one more than the bound of an
  interpreter that runs with its default setting.\<close>

definition ex_big :: SparseMatrix where
  "ex_big = \<lparr>rows = 1, cols = 1, data = [((0, 0), 10 ^ 4300)]\<rparr>"

text \<open>A store that holds the four example matrices.\<close>

definition ex_store :: store where
  "ex_store = [ex_A, ex_B, ex_P, ex_Q]"

section \<open>Reading and writing single entries\<close>

lemma dict_get_delete: "dict_get (AList.delete k d) k' 0 = (if k' = k then 0 else dict_get d k' 0)"
  by (simp add: dict_get_def delete_conv')

lemma dict_get_update: "dict_get (AList.update k v d) k' 0 = (if k' = k then v else dict_get d k' 0)"
  by (simp add: dict_get_def update_conv')

lemma set_at_Inr:
  assumes "set_at m r c v = Inr m'"
  shows "rows m' = rows m" and "cols m' = cols m"
    and "get_at m' r' c' = (if (r', c') = (r, c) then v else get_at m r' c')"
    and "0 \<le> r \<and> r < rows m \<and> 0 \<le> c \<and> c < cols m"
  using assms
  by (auto simp: set_at_def get_at_def dict_get_delete dict_get_update split: if_splits)

lemma set_at_in_range:
  "0 \<le> r \<Longrightarrow> r < rows m \<Longrightarrow> 0 \<le> c \<Longrightarrow> c < cols m \<Longrightarrow> \<exists>m'. set_at m r c v = Inr m'"
  by (simp add: set_at_def)

lemma nonzero_set_at:
  assumes "set_at m r c v = Inr m'" and "nonzero m"
  shows "nonzero m'"
proof -
  have del: "list_all (\<lambda>(k, v). v \<noteq> (0::int)) (AList.delete k d)"
    if "list_all (\<lambda>(k, v). v \<noteq> 0) d" for k :: coord and d
    using that by (induction d) auto
  have upd: "list_all (\<lambda>(k, v). v \<noteq> (0::int)) (AList.update k w d)"
    if "list_all (\<lambda>(k, v). v \<noteq> 0) d" and "w \<noteq> 0" for k :: coord and d w
    using that by (induction d) auto
  show ?thesis
    using assms del upd by (auto simp: set_at_def nonzero_def split: if_splits)
qed

lemma in_bounds_set_at:
  assumes "set_at m r c v = Inr m'" and "in_bounds m"
  shows "in_bounds m'"
proof -
  have del: "list_all P (AList.delete k d)" if "list_all P d"
    for k :: coord and d :: py_dict and P
    using that by (induction d) auto
  have upd: "list_all P (AList.update k w d)" if "list_all P d" and "P (k, w)"
    for k :: coord and d :: py_dict and w P
    using that by (induction d) auto
  show ?thesis
    using assms
    by (auto simp: set_at_def in_bounds_def keys_in_def split: if_splits intro!: del upd)
qed

lemma is_dict_set_at:
  assumes "set_at m r c v = Inr m'" and "is_dict (data m)"
  shows "is_dict (data m')"
  using assms
  by (auto simp: set_at_def is_dict_def distinct_delete distinct_update split: if_splits)

section \<open>The loops of the arithmetic operations\<close>

lemma delta_sum_Nil: "delta_sum [] k = 0"
  by (simp add: delta_sum_def)

lemma delta_sum_Cons: "delta_sum ((k', v) # xs) k = (if k' = k then v else 0) + delta_sum xs k"
  by (simp add: delta_sum_def)

lemma delta_sum_append: "delta_sum (xs @ ys) k = delta_sum xs k + delta_sum ys k"
  by (simp add: delta_sum_def)

lemma accumulate_ok:
  assumes "keys_in (rows m) (cols m) xs"
  shows "\<exists>m'. accumulate m xs = Inr m' \<and> rows m' = rows m \<and> cols m' = cols m
           \<and> (\<forall>r c. get_at m' r c = get_at m r c + delta_sum xs (r, c))
           \<and> (nonzero m \<longrightarrow> nonzero m') \<and> (in_bounds m \<longrightarrow> in_bounds m')
           \<and> (is_dict (data m) \<longrightarrow> is_dict (data m'))"
  using assms
proof (induction xs arbitrary: m)
  case Nil
  then show ?case by (simp add: delta_sum_Nil)
next
  case (Cons x xs)
  obtain r c d where x: "x = ((r, c), d)" by (metis surj_pair)
  from Cons.prems have rc: "0 \<le> r" "r < rows m" "0 \<le> c" "c < cols m"
    by (simp_all add: keys_in_def x)
  then obtain m1 where m1: "set_at m r c (get_at m r c + d) = Inr m1"
    using set_at_in_range by blast
  note s = set_at_Inr [OF m1]
  have "keys_in (rows m1) (cols m1) xs"
    using Cons.prems by (simp add: keys_in_def x s)
  from Cons.IH [OF this] obtain m' where m':
    "accumulate m1 xs = Inr m'" "rows m' = rows m1" "cols m' = cols m1"
    "\<forall>r c. get_at m' r c = get_at m1 r c + delta_sum xs (r, c)"
    "nonzero m1 \<longrightarrow> nonzero m'" "in_bounds m1 \<longrightarrow> in_bounds m'"
    "is_dict (data m1) \<longrightarrow> is_dict (data m')"
    by blast
  have "accumulate m (x # xs) = Inr m'"
    by (simp add: x m1 m')
  moreover have "\<forall>r' c'. get_at m' r' c' = get_at m r' c' + delta_sum (x # xs) (r', c')"
    using m'(4) by (auto simp: x s delta_sum_Cons)
  ultimately show ?case
    using m' s nonzero_set_at [OF m1] in_bounds_set_at [OF m1] is_dict_set_at [OF m1]
    by auto
qed

lemma add_entries_accumulate: "add_entries m xs = accumulate m xs"
  by (induction m xs rule: add_entries.induct) (auto split: sum.splits)

lemma sub_entries_accumulate: "sub_entries m xs = accumulate m (map (\<lambda>(k, v). (k, - v)) xs)"
  by (induction m xs rule: sub_entries.induct) (auto split: sum.splits)

lemma mul_row_accumulate:
  "mul_row m i v1 ps = accumulate m (map (\<lambda>(j, v2). ((i, j), v1 * v2)) ps)"
  by (induction m i v1 ps rule: mul_row.induct) (auto split: sum.splits)

lemma accumulate_append:
  "accumulate m (xs @ ys) = (case accumulate m xs of Inl e \<Rightarrow> Inl e | Inr m' \<Rightarrow> accumulate m' ys)"
  by (induction m xs rule: accumulate.induct) (auto split: sum.splits)

lemma mul_entries_accumulate: "mul_entries m om xs = accumulate m (products om xs)"
  by (induction m om xs rule: mul_entries.induct)
     (auto simp: products_def accumulate_append mul_row_accumulate split: sum.splits option.splits)

lemma delta_sum_neg: "delta_sum (map (\<lambda>(k, v). (k, - v)) xs) k = - delta_sum xs k"
  by (induction xs) (auto simp: delta_sum_Nil delta_sum_Cons)

lemma delta_sum_dict:
  "is_dict d \<Longrightarrow> delta_sum d k = dict_get d k 0"
proof (induction d)
  case Nil
  then show ?case by (simp add: delta_sum_Nil dict_get_def)
next
  case (Cons p d)
  obtain k' v where p: "p = (k', v)" by (cases p)
  have "k' \<notin> fst ` set d" and d: "is_dict d"
    using Cons.prems by (auto simp: is_dict_def p)
  then have "map_of d k' = None"
    by (simp add: map_of_eq_None_iff)
  then show ?case
    using Cons.IH [OF d] by (auto simp: p delta_sum_Cons dict_get_def)
qed

lemma copy_entries_ok:
  assumes "keys_in (rows m) (cols m) xs"
  shows "\<exists>m'. copy_entries m xs = Inr m' \<and> rows m' = rows m \<and> cols m' = cols m
           \<and> (is_dict xs \<longrightarrow> (\<forall>r c. get_at m' r c =
                 (if (r, c) \<in> fst ` set xs then dict_get xs (r, c) 0 else get_at m r c)))
           \<and> (nonzero m \<longrightarrow> nonzero m') \<and> (in_bounds m \<longrightarrow> in_bounds m')
           \<and> (is_dict (data m) \<longrightarrow> is_dict (data m'))"
  using assms
proof (induction xs arbitrary: m)
  case Nil
  then show ?case by simp
next
  case (Cons x xs)
  obtain r c d where x: "x = ((r, c), d)" by (metis surj_pair)
  from Cons.prems have rc: "0 \<le> r" "r < rows m" "0 \<le> c" "c < cols m"
    by (simp_all add: keys_in_def x)
  then obtain m1 where m1: "set_at m r c d = Inr m1"
    using set_at_in_range by blast
  note s = set_at_Inr [OF m1]
  have "keys_in (rows m1) (cols m1) xs"
    using Cons.prems by (simp add: keys_in_def x s)
  from Cons.IH [OF this] obtain m' where m':
    "copy_entries m1 xs = Inr m'" "rows m' = rows m1" "cols m' = cols m1"
    "is_dict xs \<longrightarrow> (\<forall>r c. get_at m' r c =
        (if (r, c) \<in> fst ` set xs then dict_get xs (r, c) 0 else get_at m1 r c))"
    "nonzero m1 \<longrightarrow> nonzero m'" "in_bounds m1 \<longrightarrow> in_bounds m'"
    "is_dict (data m1) \<longrightarrow> is_dict (data m')"
    by blast
  have "copy_entries m (x # xs) = Inr m'"
    by (simp add: x m1 m')
  moreover have "\<forall>r' c'. get_at m' r' c' =
      (if (r', c') \<in> fst ` set (x # xs) then dict_get (x # xs) (r', c') 0 else get_at m r' c')"
    if "is_dict (x # xs)"
  proof -
    from that have notin: "(r, c) \<notin> fst ` set xs" and dxs: "is_dict xs"
      by (auto simp: is_dict_def x)
    show ?thesis
      using m'(4) notin dxs by (auto simp: x s dict_get_def)
  qed
  ultimately show ?case
    using m' s nonzero_set_at [OF m1] in_bounds_set_at [OF m1] is_dict_set_at [OF m1]
    by auto
qed

lemma in_bounds_keys_in: "in_bounds m = keys_in (rows m) (cols m) (data m)"
  by (simp add: in_bounds_def)

lemma nonzero_init: "nonzero (matrix_init r c)" "in_bounds (matrix_init r c)"
  "is_dict (data (matrix_init r c))" "rows (matrix_init r c) = r" "cols (matrix_init r c) = c"
  "get_at (matrix_init r c) i j = 0"
  by (simp_all add: matrix_init_def nonzero_def in_bounds_def keys_in_def is_dict_def get_at_def dict_get_def)

lemma get_at_stored: "(r, c) \<notin> stored m \<Longrightarrow> get_at m r c = 0"
  by (simp add: stored_def get_at_def dict_get_def map_of_eq_None_iff [THEN iffD2])

lemma nonzero_get_at:
  assumes "nonzero m" and "get_at m r c = 0"
  shows "(r, c) \<notin> stored m"
proof
  assume "(r, c) \<in> stored m"
  then have "map_of (data m) (r, c) \<noteq> None"
    by (simp add: stored_def map_of_eq_None_iff)
  then obtain v where v: "map_of (data m) (r, c) = Some v"
    by blast
  then have "((r, c), v) \<in> set (data m)" by (rule map_of_SomeD)
  with assms(1) have "v \<noteq> 0" by (auto simp: nonzero_def list_all_iff)
  with v assms(2) show False by (simp add: get_at_def dict_get_def)
qed

lemma add_result:
  assumes "in_bounds A" and "in_bounds B" and "rows A = rows B" and "cols A = cols B"
  shows "\<exists>C. matrix_add A B = Inr C \<and> rows C = rows A \<and> cols C = cols A
           \<and> nonzero C \<and> in_bounds C \<and> is_dict (data C)
           \<and> (is_dict (data A) \<longrightarrow> is_dict (data B) \<longrightarrow>
                 (\<forall>r c. get_at C r c = get_at A r c + get_at B r c))"
proof -
  let ?I = "matrix_init (rows A) (cols A)"
  have "keys_in (rows ?I) (cols ?I) (data A)"
    using assms(1) by (simp add: in_bounds_def nonzero_init)
  from copy_entries_ok [OF this] obtain R where R:
    "copy_entries ?I (data A) = Inr R" "rows R = rows A" "cols R = cols A"
    "is_dict (data A) \<longrightarrow> (\<forall>r c. get_at R r c =
       (if (r, c) \<in> fst ` set (data A) then dict_get (data A) (r, c) 0 else 0))"
    "nonzero R" "in_bounds R" "is_dict (data R)"
    by (auto simp: nonzero_init)
  have RA: "get_at R r c = get_at A r c" if "is_dict (data A)" for r c
    using R(4) that get_at_stored [of r c A] by (auto simp: get_at_def stored_def)
  have "keys_in (rows R) (cols R) (data B)"
    using assms by (simp add: in_bounds_def R)
  from accumulate_ok [OF this] obtain C where C:
    "accumulate R (data B) = Inr C" "rows C = rows R" "cols C = cols R"
    "\<forall>r c. get_at C r c = get_at R r c + delta_sum (data B) (r, c)"
    "nonzero C" "in_bounds C" "is_dict (data C)"
    using R by blast
  have "matrix_add A B = Inr C"
    using assms(3,4) R(1) C(1) by (simp add: matrix_add_def add_entries_accumulate)
  moreover have "get_at C r c = get_at A r c + get_at B r c"
    if "is_dict (data A)" "is_dict (data B)" for r c
    using C(4) RA that by (simp add: delta_sum_dict get_at_def)
  ultimately show ?thesis
    using C R by auto
qed

lemma sub_result:
  assumes "in_bounds A" and "in_bounds B" and "rows A = rows B" and "cols A = cols B"
  shows "\<exists>C. matrix_sub A B = Inr C \<and> rows C = rows A \<and> cols C = cols A
           \<and> nonzero C \<and> in_bounds C \<and> is_dict (data C)
           \<and> (is_dict (data A) \<longrightarrow> is_dict (data B) \<longrightarrow>
                 (\<forall>r c. get_at C r c = get_at A r c - get_at B r c))"
proof -
  let ?I = "matrix_init (rows A) (cols A)"
  let ?N = "map (\<lambda>(k, v). (k, - v)) (data B)"
  have "keys_in (rows ?I) (cols ?I) (data A)"
    using assms(1) by (simp add: in_bounds_def nonzero_init)
  from copy_entries_ok [OF this] obtain R where R:
    "copy_entries ?I (data A) = Inr R" "rows R = rows A" "cols R = cols A"
    "is_dict (data A) \<longrightarrow> (\<forall>r c. get_at R r c =
       (if (r, c) \<in> fst ` set (data A) then dict_get (data A) (r, c) 0 else 0))"
    "nonzero R" "in_bounds R" "is_dict (data R)"
    by (auto simp: nonzero_init)
  have RA: "get_at R r c = get_at A r c" if "is_dict (data A)" for r c
    using R(4) that get_at_stored [of r c A] by (auto simp: get_at_def stored_def)
  have "keys_in (rows R) (cols R) ?N"
    using assms by (simp add: in_bounds_def R keys_in_def list_all_iff split_beta)
  from accumulate_ok [OF this] obtain C where C:
    "accumulate R ?N = Inr C" "rows C = rows R" "cols C = cols R"
    "\<forall>r c. get_at C r c = get_at R r c + delta_sum ?N (r, c)"
    "nonzero C" "in_bounds C" "is_dict (data C)"
    using R by blast
  have "matrix_sub A B = Inr C"
    using assms(3,4) R(1) C(1) by (simp add: matrix_sub_def sub_entries_accumulate)
  moreover have "get_at C r c = get_at A r c - get_at B r c"
    if "is_dict (data A)" "is_dict (data B)" for r c
    using C(4) RA that by (simp add: delta_sum_neg delta_sum_dict get_at_def)
  ultimately show ?thesis
    using C R by auto
qed

lemma row_sum_setdefault:
  "row_sum (setdefault_append om r (c, v)) k j =
     row_sum om k j + (if (r, c) = (k, j) then v else 0)"
  by (auto simp: row_sum_def setdefault_append_def update_conv' delta_sum_append
      delta_sum_Cons delta_sum_Nil split: option.splits)

lemma row_sum_build:
  "row_sum (build_other_map om xs) k j = row_sum om k j + delta_sum xs (k, j)"
  by (induction om xs rule: build_other_map.induct)
     (auto simp: row_sum_setdefault delta_sum_Nil delta_sum_Cons)

lemma delta_sum_scaled:
  "delta_sum (map (\<lambda>(j, v2). ((i', j), v1 * v2)) ps) (i, j) =
     (if i' = i then v1 * delta_sum ps j else 0)"
  by (induction ps) (auto simp: delta_sum_Nil delta_sum_Cons distrib_left)

lemma delta_sum_products:
  "delta_sum (products om xs) (i, j) =
     (\<Sum>((i', k), v1)\<leftarrow>xs. if i' = i then v1 * row_sum om k j else 0)"
proof (induction xs)
  case Nil
  then show ?case by (simp add: products_def delta_sum_Nil)
next
  case (Cons x xs)
  obtain i' k v1 where x: "x = ((i', k), v1)" by (metis surj_pair)
  have "products om (x # xs) =
      (case map_of om k of None \<Rightarrow> [] | Some ps \<Rightarrow> map (\<lambda>(j, v2). ((i', j), v1 * v2)) ps)
      @ products om xs"
    by (simp add: products_def x)
  then show ?case
    using Cons.IH
    by (auto simp: x delta_sum_append delta_sum_scaled delta_sum_Nil row_sum_def
        split: option.splits)
qed

lemma build_other_map_mem:
  assumes "map_of (build_other_map om xs) k = Some ps" and "(j, v) \<in> set ps"
  shows "(\<exists>ps0. map_of om k = Some ps0 \<and> (j, v) \<in> set ps0) \<or> ((k, j), v) \<in> set xs"
  using assms
proof (induction om xs rule: build_other_map.induct)
  case (1 om)
  then show ?case by simp
next
  case (2 om r c val items)
  from "2.IH" [OF _ "2.prems"(2)] "2.prems"(1)
  have "(\<exists>ps0. map_of (setdefault_append om r (c, val)) k = Some ps0 \<and> (j, v) \<in> set ps0)
        \<or> ((k, j), v) \<in> set items"
    by simp
  then show ?case
    by (auto simp: setdefault_append_def update_conv' split: option.splits if_splits)
qed

lemma keys_in_products:
  assumes "keys_in nr nk xs" and "keys_in nk' nc ys"
  shows "keys_in nr nc (products (build_other_map [] ys) xs)"
proof -
  have "0 \<le> i \<and> i < nr \<and> 0 \<le> j \<and> j < nc"
    if "((i, j), w) \<in> set (products (build_other_map [] ys) xs)" for i j w
  proof -
    from that obtain k v1 ps v2 where
      a: "((i, k), v1) \<in> set xs" and
      m: "map_of (build_other_map [] ys) k = Some ps" and
      b: "(j, v2) \<in> set ps"
      by (auto simp: products_def split: option.splits) metis
    from build_other_map_mem [OF m b] have "((k, j), v2) \<in> set ys" by simp
    with assms a show ?thesis
      by (auto simp: keys_in_def list_all_iff)
  qed
  then show ?thesis
    by (auto simp: keys_in_def list_all_iff)
qed

lemma sum_row_entries:
  assumes "is_dict xs" and "keys_in nr n xs"
  shows "(\<Sum>((i', k), v1)\<leftarrow>xs. if i' = i then v1 * g k else 0) =
         (\<Sum>k\<in>{0..<n}. dict_get xs (i, k) 0 * g k)"
  using assms
proof (induction xs)
  case Nil
  then show ?case by (simp add: dict_get_def)
next
  case (Cons x xs)
  obtain i' k' v where x: "x = ((i', k'), v)" by (metis surj_pair)
  from Cons.prems have notin: "(i', k') \<notin> fst ` set xs" and d: "is_dict xs"
    and kin: "keys_in nr n xs" and k': "0 \<le> k'" "k' < n"
    by (auto simp: is_dict_def keys_in_def x)
  have z: "dict_get xs (i', k') 0 = 0"
    using notin by (simp add: dict_get_def map_of_eq_None_iff [THEN iffD2])
  have "(\<Sum>k\<in>{0..<n}. dict_get (x # xs) (i, k) 0 * g k) =
        (\<Sum>k\<in>{0..<n}. (if k = k' then (if i' = i then v * g k' else 0) else 0)
                        + dict_get xs (i, k) 0 * g k)"
    using z by (intro sum.cong refl) (auto simp: x dict_get_def)
  also have "\<dots> = (if i' = i then v * g k' else 0) + (\<Sum>k\<in>{0..<n}. dict_get xs (i, k) 0 * g k)"
    using k' by (simp add: sum.distrib)
  finally show ?case
    using Cons.IH [OF d kin] by (simp add: x)
qed

lemma matmul_result:
  assumes "in_bounds A" and "in_bounds B" and "cols A = rows B"
  shows "\<exists>C. matrix_matmul A B = Inr C \<and> rows C = rows A \<and> cols C = cols B
           \<and> nonzero C \<and> in_bounds C \<and> is_dict (data C)
           \<and> (is_dict (data A) \<longrightarrow> is_dict (data B) \<longrightarrow>
                 (\<forall>i j. get_at C i j = dot_product A B i j))"
proof -
  let ?I = "matrix_init (rows A) (cols B)"
  let ?om = "build_other_map [] (data B)"
  have "keys_in (rows ?I) (cols ?I) (products ?om (data A))"
    using assms(1,2) by (simp add: nonzero_init in_bounds_def keys_in_products)
  from accumulate_ok [OF this] obtain C where C:
    "accumulate ?I (products ?om (data A)) = Inr C" "rows C = rows A" "cols C = cols B"
    "\<forall>r c. get_at C r c = delta_sum (products ?om (data A)) (r, c)"
    "nonzero C" "in_bounds C" "is_dict (data C)"
    by (auto simp: nonzero_init)
  have "matrix_matmul A B = Inr C"
    using assms(3) C(1) by (simp add: matrix_matmul_def mul_entries_accumulate)
  moreover have "get_at C i j = dot_product A B i j"
    if dA: "is_dict (data A)" and dB: "is_dict (data B)" for i j
  proof -
    have rs: "row_sum ?om k j = get_at B k j" for k
    proof -
      have "row_sum [] k j = 0" by (simp add: row_sum_def)
      then show ?thesis
        using dB by (simp add: row_sum_build delta_sum_dict get_at_def)
    qed
    have "get_at C i j = (\<Sum>((i', k), v1)\<leftarrow>data A. if i' = i then v1 * get_at B k j else 0)"
      using C(4) by (simp add: delta_sum_products rs cong: if_cong)
    also have "\<dots> = (\<Sum>k\<in>{0..<cols A}. dict_get (data A) (i, k) 0 * get_at B k j)"
      using dA assms(1) by (intro sum_row_entries) (simp_all add: in_bounds_def)
    finally show ?thesis
      by (simp add: dot_product_def get_at_def)
  qed
  ultimately show ?thesis
    using C by auto
qed

section \<open>Properties of the arithmetic operations\<close>

lemma ex_simps:
  "is_dict (data ex_A)" "in_bounds ex_A" "nonzero ex_A"
  "is_dict (data ex_B)" "in_bounds ex_B" "nonzero ex_B"
  "is_dict (data ex_P)" "in_bounds ex_P" "nonzero ex_P"
  "is_dict (data ex_Q)" "in_bounds ex_Q" "nonzero ex_Q"
  by (simp_all add: ex_A_def ex_B_def ex_P_def ex_Q_def is_dict_def in_bounds_def keys_in_def
      nonzero_def)

lemma get_at_cong_set:
  assumes "is_dict (data A)" and "is_dict (data A')" and "set (data A') = set (data A)"
  shows "get_at A' r c = get_at A r c"
proof -
  have "map_of (data A') = map_of (data A)"
    using assms by (simp add: is_dict_def map_of_inject_set [symmetric])
  then show ?thesis by (simp add: get_at_def dict_get_def)
qed

text \<open>
  Claim C1. For dictionaries \<open>A\<close> and \<open>B\<close> whose stored coordinates are within their
  extents, \<open>A @ B\<close> raises the alignment \<^verbatim>\<open>ValueError\<close> exactly when
  \<open>cols A \<noteq> rows B\<close>. Otherwise it returns a matrix of shape \<open>(rows A, cols B)\<close> whose
  \<open>get(i, j)\<close> is the dot product, the sum over \<open>k\<close> of \<open>A.get(i, k) * B.get(k, j)\<close>, at
  every coordinate. The order in which the two dictionaries list their entries has no
  influence: operands with the same extents and the same entries, listed in any other
  order, give a product with the same \<open>get\<close> everywhere. The witness is the scenario of
  the specification, with the value 39 at (0, 0).
\<close>

theorem matmul_correct:
  assumes "is_dict (data A)" and "in_bounds A" and "is_dict (data B)" and "in_bounds B"
  shows "(matrix_matmul A B = Inl (ValueError ''Matrix dimensions not aligned for multiplication'')
            \<longleftrightarrow> cols A \<noteq> rows B)
       \<and> (cols A = rows B \<longrightarrow>
            (\<exists>C. matrix_matmul A B = Inr C \<and> rows C = rows A \<and> cols C = cols B
                \<and> (\<forall>i j. get_at C i j = dot_product A B i j)
                \<and> (\<forall>A' B'. is_dict (data A') \<and> set (data A') = set (data A)
                        \<and> rows A' = rows A \<and> cols A' = cols A
                        \<and> is_dict (data B') \<and> set (data B') = set (data B)
                        \<and> rows B' = rows B \<and> cols B' = cols B \<longrightarrow>
                      (\<exists>C'. matrix_matmul A' B' = Inr C'
                          \<and> (\<forall>i j. get_at C' i j = get_at C i j)))))"
proof (cases "cols A = rows B")
  case False
  then show ?thesis by (simp add: matrix_matmul_def)
next
  case True
  from matmul_result [OF assms(2,4) True] assms(1,3) obtain C where C:
    "matrix_matmul A B = Inr C" "rows C = rows A" "cols C = cols B"
    "\<forall>i j. get_at C i j = dot_product A B i j"
    by blast
  have "\<exists>C'. matrix_matmul A' B' = Inr C' \<and> (\<forall>i j. get_at C' i j = get_at C i j)"
    if A': "is_dict (data A')" "set (data A') = set (data A)" "rows A' = rows A" "cols A' = cols A"
      and B': "is_dict (data B')" "set (data B') = set (data B)" "rows B' = rows B" "cols B' = cols B"
    for A' B'
  proof -
    have bA: "in_bounds A'" and bB: "in_bounds B'"
      using assms(2,4) A' B' by (simp_all add: in_bounds_def keys_in_def list_all_iff)
    have "cols A' = rows B'" using True A' B' by simp
    from matmul_result [OF bA bB this] A'(1) B'(1) obtain C' where C':
      "matrix_matmul A' B' = Inr C'" "\<forall>i j. get_at C' i j = dot_product A' B' i j"
      by blast
    have "dot_product A' B' i j = dot_product A B i j" for i j
      using get_at_cong_set [OF assms(1) A'(1,2)] get_at_cong_set [OF assms(3) B'(1,2)] A'(4)
      by (simp add: dot_product_def)
    with C' C(4) show ?thesis by simp
  qed
  with C True show ?thesis by auto
qed

theorem matmul_correct_witness:
  "is_dict (data ex_A) \<and> in_bounds ex_A \<and> is_dict (data ex_B) \<and> in_bounds ex_B
   \<and> cols ex_A = rows ex_B
   \<and> matrix_matmul ex_A ex_B = Inr \<lparr>rows = 1, cols = 1, data = [((0, 0), 39)]\<rparr>
   \<and> dot_product ex_A ex_B 0 0 = 39
   \<and> matrix_matmul (ex_A\<lparr>data := rev (data ex_A)\<rparr>) (ex_B\<lparr>data := rev (data ex_B)\<rparr>)
       = Inr \<lparr>rows = 1, cols = 1, data = [((0, 0), 39)]\<rparr>"
proof -
  have run: "matrix_matmul ex_A ex_B = Inr \<lparr>rows = 1, cols = 1, data = [((0, 0), 39)]\<rparr>"
    by (simp add: ex_A_def ex_B_def matrix_matmul_def matrix_init_def setdefault_append_def
        set_at_def get_at_def dict_get_def)
  have rev: "matrix_matmul (ex_A\<lparr>data := rev (data ex_A)\<rparr>) (ex_B\<lparr>data := rev (data ex_B)\<rparr>)
       = Inr \<lparr>rows = 1, cols = 1, data = [((0, 0), 39)]\<rparr>"
    by (simp add: ex_A_def ex_B_def matrix_matmul_def matrix_init_def setdefault_append_def
        set_at_def get_at_def dict_get_def)
  have al: "cols ex_A = rows ex_B" by (simp add: ex_A_def ex_B_def)
  from matmul_correct [OF ex_simps(1,2,4,5)] al run
  have "get_at \<lparr>rows = 1, cols = 1, data = [((0, 0), 39)]\<rparr> 0 0 = dot_product ex_A ex_B 0 0"
    by auto
  then have "dot_product ex_A ex_B 0 0 = 39"
    by (simp add: get_at_def dict_get_def)
  with ex_simps al run rev show ?thesis by simp
qed

text \<open>
  Claim C4. For dictionaries \<open>A\<close> and \<open>B\<close> whose stored coordinates are within their
  extents, \<open>A + B\<close> and \<open>A - B\<close> raise the dimension \<^verbatim>\<open>ValueError\<close>, and return no
  matrix, exactly when the two differ in \<open>rows\<close> or in \<open>cols\<close>. Otherwise each returns
  a matrix of the same shape whose \<open>get(r, c)\<close> is \<open>A.get(r, c) + B.get(r, c)\<close>
  (respectively the difference) at every coordinate, and a coordinate whose result is
  zero has no stored entry.
\<close>

theorem add_sub_correct:
  assumes "is_dict (data A)" and "in_bounds A" and "is_dict (data B)" and "in_bounds B"
  shows "(matrix_add A B = Inl (ValueError ''Matrix dimensions must match'')
            \<longleftrightarrow> rows A \<noteq> rows B \<or> cols A \<noteq> cols B)
       \<and> (matrix_sub A B = Inl (ValueError ''Matrix dimensions must match'')
            \<longleftrightarrow> rows A \<noteq> rows B \<or> cols A \<noteq> cols B)
       \<and> (rows A = rows B \<and> cols A = cols B \<longrightarrow>
            (\<exists>C. matrix_add A B = Inr C \<and> rows C = rows A \<and> cols C = cols A
                \<and> (\<forall>r c. get_at C r c = get_at A r c + get_at B r c)
                \<and> (\<forall>r c. get_at C r c = 0 \<longrightarrow> (r, c) \<notin> stored C))
          \<and> (\<exists>D. matrix_sub A B = Inr D \<and> rows D = rows A \<and> cols D = cols A
                \<and> (\<forall>r c. get_at D r c = get_at A r c - get_at B r c)
                \<and> (\<forall>r c. get_at D r c = 0 \<longrightarrow> (r, c) \<notin> stored D)))"
proof (cases "rows A = rows B \<and> cols A = cols B")
  case False
  then show ?thesis
    by (auto simp: matrix_add_def matrix_sub_def)
next
  case True
  then have eq: "rows A = rows B" "cols A = cols B" by simp_all
  from add_result [OF assms(2,4) eq] assms(1,3) obtain C where C:
    "matrix_add A B = Inr C" "rows C = rows A" "cols C = cols A" "nonzero C"
    "\<forall>r c. get_at C r c = get_at A r c + get_at B r c"
    by blast
  from sub_result [OF assms(2,4) eq] assms(1,3) obtain D where D:
    "matrix_sub A B = Inr D" "rows D = rows A" "cols D = cols A" "nonzero D"
    "\<forall>r c. get_at D r c = get_at A r c - get_at B r c"
    by blast
  have "\<forall>r c. get_at C r c = 0 \<longrightarrow> (r, c) \<notin> stored C"
    using nonzero_get_at [OF C(4)] by blast
  moreover have "\<forall>r c. get_at D r c = 0 \<longrightarrow> (r, c) \<notin> stored D"
    using nonzero_get_at [OF D(4)] by blast
  ultimately show ?thesis
    using True C D by simp
qed

theorem add_sub_correct_witness:
  "is_dict (data ex_P) \<and> in_bounds ex_P \<and> is_dict (data ex_Q) \<and> in_bounds ex_Q
   \<and> rows ex_P = rows ex_Q \<and> cols ex_P = cols ex_Q
   \<and> matrix_add ex_P ex_Q = Inr \<lparr>rows = 2, cols = 2, data = [((0, 0), 1), ((0, 1), 5)]\<rparr>
   \<and> matrix_sub ex_P ex_Q
       = Inr \<lparr>rows = 2, cols = 2, data = [((0, 0), 1), ((1, 1), 4), ((0, 1), - 5)]\<rparr>
   \<and> (\<exists>C. matrix_add ex_P ex_Q = Inr C
         \<and> get_at C 1 1 = get_at ex_P 1 1 + get_at ex_Q 1 1 \<and> (1, 1) \<notin> stored C)
   \<and> matrix_add ex_P ex_A = Inl (ValueError ''Matrix dimensions must match'')"
proof -
  have eq: "rows ex_P = rows ex_Q \<and> cols ex_P = cols ex_Q" "rows ex_P \<noteq> rows ex_A"
    by (simp_all add: ex_P_def ex_Q_def ex_A_def)
  have add: "matrix_add ex_P ex_Q = Inr \<lparr>rows = 2, cols = 2, data = [((0, 0), 1), ((0, 1), 5)]\<rparr>"
    by (simp add: ex_P_def ex_Q_def matrix_add_def matrix_init_def set_at_def get_at_def
        dict_get_def)
  have sub: "matrix_sub ex_P ex_Q
       = Inr \<lparr>rows = 2, cols = 2, data = [((0, 0), 1), ((1, 1), 4), ((0, 1), - 5)]\<rparr>"
    by (simp add: ex_P_def ex_Q_def matrix_sub_def matrix_init_def set_at_def get_at_def
        dict_get_def)
  from add_sub_correct [OF ex_simps(7,8,10,11)] eq(1)
  have "\<exists>C. matrix_add ex_P ex_Q = Inr C
         \<and> get_at C 1 1 = get_at ex_P 1 1 + get_at ex_Q 1 1 \<and> (1, 1) \<notin> stored C"
    by (auto simp: ex_P_def ex_Q_def get_at_def dict_get_def)
  moreover from add_sub_correct [OF ex_simps(7,8,1,2)] eq(2)
  have "matrix_add ex_P ex_A = Inl (ValueError ''Matrix dimensions must match'')"
    by simp
  ultimately show ?thesis
    using ex_simps eq add sub by simp
qed

lemma same_entries:
  assumes "nonzero m" and "nonzero m'" and "is_dict (data m)" and "is_dict (data m')"
    and "\<forall>r c. get_at m' r c = get_at m r c"
  shows "set (data m') = set (data m)"
proof -
  have nz: "map_of (data x) k \<noteq> Some 0" if "nonzero x" for x k
    using that by (auto simp: nonzero_def list_all_iff dest: map_of_SomeD)
  have "map_of (data m') k = map_of (data m) k" for k
  proof -
    obtain r c where k: "k = (r, c)" by (cases k)
    from assms(5) have "get_at m' r c = get_at m r c" by blast
    then show ?thesis
      using nz [OF assms(1), of k] nz [OF assms(2), of k]
      by (auto simp: k get_at_def dict_get_def split: option.splits)
  qed
  then have "map_of (data m') = map_of (data m)" by (rule ext)
  then show ?thesis
    using assms(3,4) by (simp add: is_dict_def map_of_inject_set)
qed

text \<open>
  Claim C8. For \<open>A\<close> and \<open>B\<close> of equal shape, \<open>A\<close> satisfying the invariants of the
  store (no key twice, coordinates within the extents, no stored zero) and \<open>B\<close> the first
  two of them, \<open>(A + B) - B\<close> and \<open>(A - B) + B\<close> both succeed and give a matrix with the
  dimensions of \<open>A\<close> and exactly the stored entries of \<open>A\<close>.
\<close>

theorem add_sub_cancel:
  assumes "valid A" and "is_dict (data B)" and "in_bounds B"
    and "rows A = rows B" and "cols A = cols B"
  shows "(\<exists>C D. matrix_add A B = Inr C \<and> matrix_sub C B = Inr D
            \<and> rows D = rows A \<and> cols D = cols A \<and> set (data D) = set (data A))
       \<and> (\<exists>C D. matrix_sub A B = Inr C \<and> matrix_add C B = Inr D
            \<and> rows D = rows A \<and> cols D = cols A \<and> set (data D) = set (data A))"
proof -
  from assms(1) have A: "is_dict (data A)" "in_bounds A" "nonzero A"
    by (simp_all add: valid_def)
  have "\<exists>C D. matrix_add A B = Inr C \<and> matrix_sub C B = Inr D
            \<and> rows D = rows A \<and> cols D = cols A \<and> set (data D) = set (data A)"
  proof -
    from add_result [OF A(2) assms(3,4,5)] A(1) assms(2) obtain C where C:
      "matrix_add A B = Inr C" "rows C = rows A" "cols C = cols A" "in_bounds C"
      "is_dict (data C)" "\<forall>r c. get_at C r c = get_at A r c + get_at B r c"
      by blast
    have "rows C = rows B" "cols C = cols B" using C assms by simp_all
    from sub_result [OF C(4) assms(3) this] C(5) assms(2) obtain D where D:
      "matrix_sub C B = Inr D" "rows D = rows C" "cols D = cols C" "nonzero D"
      "is_dict (data D)" "\<forall>r c. get_at D r c = get_at C r c - get_at B r c"
      by blast
    have "\<forall>r c. get_at D r c = get_at A r c" using C(6) D(6) by simp
    from same_entries [OF A(3) D(4) A(1) D(5) this] C D show ?thesis by simp
  qed
  moreover have "\<exists>C D. matrix_sub A B = Inr C \<and> matrix_add C B = Inr D
            \<and> rows D = rows A \<and> cols D = cols A \<and> set (data D) = set (data A)"
  proof -
    from sub_result [OF A(2) assms(3,4,5)] A(1) assms(2) obtain C where C:
      "matrix_sub A B = Inr C" "rows C = rows A" "cols C = cols A" "in_bounds C"
      "is_dict (data C)" "\<forall>r c. get_at C r c = get_at A r c - get_at B r c"
      by blast
    have "rows C = rows B" "cols C = cols B" using C assms by simp_all
    from add_result [OF C(4) assms(3) this] C(5) assms(2) obtain D where D:
      "matrix_add C B = Inr D" "rows D = rows C" "cols D = cols C" "nonzero D"
      "is_dict (data D)" "\<forall>r c. get_at D r c = get_at C r c + get_at B r c"
      by blast
    have "\<forall>r c. get_at D r c = get_at A r c" using C(6) D(6) by simp
    from same_entries [OF A(3) D(4) A(1) D(5) this] C D show ?thesis by simp
  qed
  ultimately show ?thesis by blast
qed

theorem add_sub_cancel_witness:
  "valid ex_P \<and> is_dict (data ex_Q) \<and> in_bounds ex_Q
   \<and> rows ex_P = rows ex_Q \<and> cols ex_P = cols ex_Q
   \<and> (\<exists>C D. matrix_add ex_P ex_Q = Inr C \<and> matrix_sub C ex_Q = Inr D
          \<and> rows D = rows ex_P \<and> cols D = cols ex_P \<and> set (data D) = set (data ex_P))
   \<and> (\<exists>C D. matrix_sub ex_P ex_Q = Inr C \<and> matrix_add C ex_Q = Inr D
          \<and> rows D = rows ex_P \<and> cols D = cols ex_P \<and> set (data D) = set (data ex_P))
   \<and> matrix_sub \<lparr>rows = 2, cols = 2, data = [((0, 0), 1), ((0, 1), 5)]\<rparr> ex_Q
       = Inr \<lparr>rows = 2, cols = 2, data = [((0, 0), 1), ((1, 1), 2)]\<rparr>"
proof -
  have v: "valid ex_P" using ex_simps by (simp add: valid_def)
  have eq: "rows ex_P = rows ex_Q" "cols ex_P = cols ex_Q"
    by (simp_all add: ex_P_def ex_Q_def)
  have "matrix_sub \<lparr>rows = 2, cols = 2, data = [((0, 0), 1), ((0, 1), 5)]\<rparr> ex_Q
       = Inr \<lparr>rows = 2, cols = 2, data = [((0, 0), 1), ((1, 1), 2)]\<rparr>"
    by (simp add: ex_Q_def matrix_sub_def matrix_init_def set_at_def get_at_def dict_get_def)
  with add_sub_cancel [OF v ex_simps(10,11) eq] v ex_simps eq show ?thesis
    by simp
qed

text \<open>
  Claim C10. When every stored coordinate of both operands lies within the operand's
  extents, no \<^verbatim>\<open>set\<close> call made by \<open>__add__\<close>, \<open>__sub__\<close> or \<open>__matmul__\<close> reaches
  the \<^verbatim>\<open>IndexError\<close> branch: none of the three returns an \<^verbatim>\<open>IndexError\<close>, and each
  returns a matrix whenever its dimension check passes.
\<close>

theorem arithmetic_no_index_error:
  assumes "in_bounds A" and "in_bounds B"
  shows "(\<forall>msg. matrix_add A B \<noteq> Inl (IndexError msg))
       \<and> (\<forall>msg. matrix_sub A B \<noteq> Inl (IndexError msg))
       \<and> (\<forall>msg. matrix_matmul A B \<noteq> Inl (IndexError msg))
       \<and> (rows A = rows B \<and> cols A = cols B \<longrightarrow>
            (\<exists>C. matrix_add A B = Inr C) \<and> (\<exists>D. matrix_sub A B = Inr D))
       \<and> (cols A = rows B \<longrightarrow> (\<exists>C. matrix_matmul A B = Inr C))"
proof -
  have add: "\<exists>C. matrix_add A B = Inr C" and sub: "\<exists>D. matrix_sub A B = Inr D"
    if "rows A = rows B \<and> cols A = cols B"
    using that add_result [OF assms] sub_result [OF assms] by blast+
  have mul: "\<exists>C. matrix_matmul A B = Inr C" if "cols A = rows B"
    using that matmul_result [OF assms] by blast
  have "matrix_add A B \<noteq> Inl (IndexError msg)" for msg
    using add by (cases "rows A = rows B \<and> cols A = cols B") (auto simp: matrix_add_def)
  moreover have "matrix_sub A B \<noteq> Inl (IndexError msg)" for msg
    using sub by (cases "rows A = rows B \<and> cols A = cols B") (auto simp: matrix_sub_def)
  moreover have "matrix_matmul A B \<noteq> Inl (IndexError msg)" for msg
    using mul by (cases "cols A = rows B") (auto simp: matrix_matmul_def)
  ultimately show ?thesis
    using add sub mul by blast
qed

theorem arithmetic_no_index_error_witness:
  "in_bounds ex_A \<and> in_bounds ex_B \<and> cols ex_A = rows ex_B
   \<and> (\<exists>C. matrix_matmul ex_A ex_B = Inr C)
   \<and> (\<forall>msg. matrix_add ex_A ex_B \<noteq> Inl (IndexError msg))
   \<and> matrix_add ex_A ex_B = Inl (ValueError ''Matrix dimensions must match'')
   \<and> in_bounds ex_P \<and> in_bounds ex_Q \<and> rows ex_P = rows ex_Q \<and> cols ex_P = cols ex_Q
   \<and> (\<exists>C. matrix_add ex_P ex_Q = Inr C) \<and> (\<exists>D. matrix_sub ex_P ex_Q = Inr D)"
proof -
  have eq: "cols ex_A = rows ex_B" "rows ex_P = rows ex_Q" "cols ex_P = cols ex_Q"
    by (simp_all add: ex_A_def ex_B_def ex_P_def ex_Q_def)
  have "matrix_add ex_A ex_B = Inl (ValueError ''Matrix dimensions must match'')"
    by (simp add: matrix_add_def ex_A_def ex_B_def)
  with arithmetic_no_index_error [OF ex_simps(2,5)] arithmetic_no_index_error [OF ex_simps(8,11)]
    eq ex_simps
  show ?thesis by simp
qed

section \<open>The operations on a store\<close>

lemma store_set_runs:
  assumes "p < length s"
  shows "runs_as s p (store_set s p r c v) (set_at (s ! p) r c v)"
  using assms by (auto simp: runs_as_def store_set_def split: sum.splits)

lemma runs_as_step:
  assumes first: "runs_as s p (res, s1) pure1"
    and ok: "\<And>m. pure1 = Inr m \<Longrightarrow> res = Inr () \<and> s1 ! p = m \<Longrightarrow> runs_as s1 p out (k m)"
  shows "runs_as s p (case (res, s1) of (Inl e, s') \<Rightarrow> (Inl e, s') | (Inr u, s') \<Rightarrow> out)
           (case pure1 of Inl e \<Rightarrow> Inl e | Inr m \<Rightarrow> k m)"
proof (cases res)
  case (Inl e)
  with first show ?thesis by (auto simp: runs_as_def)
next
  case (Inr u)
  with first have p1: "pure1 = Inr (s1 ! p)" and len: "length s1 = length s"
    and same: "\<forall>q. q \<noteq> p \<longrightarrow> s1 ! q = s ! q"
    by (auto simp: runs_as_def)
  from ok [OF p1] Inr have "runs_as s1 p out (k (s1 ! p))" by simp
  with Inr p1 len same show ?thesis
    by (auto simp: runs_as_def split: prod.splits sum.splits)
qed

lemma store_copy_entries_runs:
  "p < length s \<Longrightarrow> runs_as s p (store_copy_entries s p items) (copy_entries (s ! p) items)"
proof (induction items arbitrary: s)
  case Nil
  then show ?case by (simp add: runs_as_def)
next
  case (Cons x items)
  obtain r c v where x: "x = ((r, c), v)" by (metis surj_pair)
  obtain res s1 where st: "store_set s p r c v = (res, s1)" by (cases "store_set s p r c v")
  have first: "runs_as s p (res, s1) (set_at (s ! p) r c v)"
    using store_set_runs [OF Cons.prems, of r c v] by (simp add: st)
  then have len: "length s1 = length s" by (simp add: runs_as_def)
  have "runs_as s p
      (case (res, s1) of (Inl e, s') \<Rightarrow> (Inl e, s') | (Inr u, s') \<Rightarrow> store_copy_entries s1 p items)
      (case set_at (s ! p) r c v of Inl e \<Rightarrow> Inl e | Inr m \<Rightarrow> copy_entries m items)"
  proof (rule runs_as_step [OF first])
    fix m assume "res = Inr () \<and> s1 ! p = m"
    then show "runs_as s1 p (store_copy_entries s1 p items) (copy_entries m items)"
      using Cons.IH [of s1] Cons.prems len by auto
  qed
  then show ?case
    by (simp add: x st split: sum.splits)
qed

lemma store_add_entries_runs:
  "p < length s \<Longrightarrow> runs_as s p (store_add_entries s p items) (add_entries (s ! p) items)"
proof (induction items arbitrary: s)
  case Nil
  then show ?case by (simp add: runs_as_def)
next
  case (Cons x items)
  obtain r c v where x: "x = ((r, c), v)" by (metis surj_pair)
  let ?w = "get_at (s ! p) r c + v"
  obtain res s1 where st: "store_set s p r c ?w = (res, s1)" by (cases "store_set s p r c ?w")
  have first: "runs_as s p (res, s1) (set_at (s ! p) r c ?w)"
    using store_set_runs [OF Cons.prems, of r c ?w] by (simp add: st)
  then have len: "length s1 = length s" by (simp add: runs_as_def)
  have "runs_as s p
      (case (res, s1) of (Inl e, s') \<Rightarrow> (Inl e, s') | (Inr u, s') \<Rightarrow> store_add_entries s1 p items)
      (case set_at (s ! p) r c ?w of Inl e \<Rightarrow> Inl e | Inr m \<Rightarrow> add_entries m items)"
  proof (rule runs_as_step [OF first])
    fix m assume "res = Inr () \<and> s1 ! p = m"
    then show "runs_as s1 p (store_add_entries s1 p items) (add_entries m items)"
      using Cons.IH [of s1] Cons.prems len by auto
  qed
  then show ?case
    by (simp add: x st store_get_def split: sum.splits)
qed

lemma store_sub_entries_runs:
  "p < length s \<Longrightarrow> runs_as s p (store_sub_entries s p items) (sub_entries (s ! p) items)"
proof (induction items arbitrary: s)
  case Nil
  then show ?case by (simp add: runs_as_def)
next
  case (Cons x items)
  obtain r c v where x: "x = ((r, c), v)" by (metis surj_pair)
  let ?w = "get_at (s ! p) r c - v"
  obtain res s1 where st: "store_set s p r c ?w = (res, s1)" by (cases "store_set s p r c ?w")
  have first: "runs_as s p (res, s1) (set_at (s ! p) r c ?w)"
    using store_set_runs [OF Cons.prems, of r c ?w] by (simp add: st)
  then have len: "length s1 = length s" by (simp add: runs_as_def)
  have "runs_as s p
      (case (res, s1) of (Inl e, s') \<Rightarrow> (Inl e, s') | (Inr u, s') \<Rightarrow> store_sub_entries s1 p items)
      (case set_at (s ! p) r c ?w of Inl e \<Rightarrow> Inl e | Inr m \<Rightarrow> sub_entries m items)"
  proof (rule runs_as_step [OF first])
    fix m assume "res = Inr () \<and> s1 ! p = m"
    then show "runs_as s1 p (store_sub_entries s1 p items) (sub_entries m items)"
      using Cons.IH [of s1] Cons.prems len by auto
  qed
  then show ?case
    by (simp add: x st store_get_def split: sum.splits)
qed

lemma store_mul_row_runs:
  "p < length s \<Longrightarrow> runs_as s p (store_mul_row s p i v1 ps) (mul_row (s ! p) i v1 ps)"
proof (induction ps arbitrary: s)
  case Nil
  then show ?case by (simp add: runs_as_def)
next
  case (Cons x ps)
  obtain j v2 where x: "x = (j, v2)" by (cases x)
  let ?w = "get_at (s ! p) i j + v1 * v2"
  obtain res s1 where st: "store_set s p i j ?w = (res, s1)" by (cases "store_set s p i j ?w")
  have first: "runs_as s p (res, s1) (set_at (s ! p) i j ?w)"
    using store_set_runs [OF Cons.prems, of i j ?w] by (simp add: st)
  then have len: "length s1 = length s" by (simp add: runs_as_def)
  have "runs_as s p
      (case (res, s1) of (Inl e, s') \<Rightarrow> (Inl e, s') | (Inr u, s') \<Rightarrow> store_mul_row s1 p i v1 ps)
      (case set_at (s ! p) i j ?w of Inl e \<Rightarrow> Inl e | Inr m \<Rightarrow> mul_row m i v1 ps)"
  proof (rule runs_as_step [OF first])
    fix m assume "res = Inr () \<and> s1 ! p = m"
    then show "runs_as s1 p (store_mul_row s1 p i v1 ps) (mul_row m i v1 ps)"
      using Cons.IH [of s1] Cons.prems len by auto
  qed
  then show ?case
    by (simp add: x st store_get_def split: sum.splits)
qed

lemma store_mul_entries_runs:
  "p < length s \<Longrightarrow>
   runs_as s p (store_mul_entries s p om items) (mul_entries (s ! p) om items)"
proof (induction items arbitrary: s)
  case Nil
  then show ?case by (simp add: runs_as_def)
next
  case (Cons x items)
  obtain i k v1 where x: "x = ((i, k), v1)" by (metis surj_pair)
  show ?case
  proof (cases "map_of om k")
    case None
    then show ?thesis using Cons by (simp add: x)
  next
    case (Some ps)
    obtain res s1 where st: "store_mul_row s p i v1 ps = (res, s1)"
      by (cases "store_mul_row s p i v1 ps")
    have first: "runs_as s p (res, s1) (mul_row (s ! p) i v1 ps)"
      using store_mul_row_runs [OF Cons.prems, of i v1 ps] by (simp add: st)
    then have len: "length s1 = length s" by (simp add: runs_as_def)
    have "runs_as s p
        (case (res, s1) of (Inl e, s') \<Rightarrow> (Inl e, s')
         | (Inr u, s') \<Rightarrow> store_mul_entries s1 p om items)
        (case mul_row (s ! p) i v1 ps of Inl e \<Rightarrow> Inl e | Inr m \<Rightarrow> mul_entries m om items)"
    proof (rule runs_as_step [OF first])
      fix m assume "res = Inr () \<and> s1 ! p = m"
      then show "runs_as s1 p (store_mul_entries s1 p om items) (mul_entries m om items)"
        using Cons.IH [of s1] Cons.prems len by auto
    qed
    then show ?thesis
      by (simp add: x st Some split: sum.splits)
  qed
qed

lemma fresh_run:
  assumes "runs_as (s @ [m0]) (length s) (res, s') pure"
  shows "length s' = Suc (length s)" and "take (length s) s' = s"
    and "res = Inr u \<Longrightarrow> pure = Inr (s' ! length s)" and "res = Inl e \<Longrightarrow> pure = Inl e"
proof -
  from assms have len: "length s' = Suc (length s)"
    and same: "\<forall>q. q \<noteq> length s \<longrightarrow> s' ! q = (s @ [m0]) ! q"
    by (simp_all add: runs_as_def)
  show "length s' = Suc (length s)" by (rule len)
  show "take (length s) s' = s"
    using len same by (intro nth_equalityI) (auto simp: nth_append)
  show "res = Inr u \<Longrightarrow> pure = Inr (s' ! length s)"
    using assms by (simp add: runs_as_def)
  show "res = Inl e \<Longrightarrow> pure = Inl e"
    using assms by (simp add: runs_as_def)
qed

lemma fresh_store:
  assumes "length s' = Suc (length s)" and "take (length s) s' = s"
  shows "s' = s @ [s' ! length s]" and "q < length s \<Longrightarrow> s' ! q = s ! q"
proof -
  show "s' = s @ [s' ! length s]"
    using assms take_Suc_conv_app_nth [of "length s" s'] by simp
  show "s' ! q = s ! q" if "q < length s"
    using that assms(2) nth_take [of q "length s" s'] by simp
qed

lemma store_add_refines:
  assumes "a < length s" and "b < length s"
  shows "operands_kept s a b (store_add s a b) \<and>
         outcome (store_add s a b) = matrix_add (s ! a) (s ! b)"
proof (cases "rows (s ! a) \<noteq> rows (s ! b) \<or> cols (s ! a) \<noteq> cols (s ! b)")
  case True
  then show ?thesis
    by (simp add: store_add_def matrix_add_def operands_kept_def outcome_def)
next
  case False
  define m0 where "m0 = matrix_init (rows (s ! a)) (cols (s ! a))"
  let ?r = "length s"
  have s1: "(s @ [m0]) ! a = s ! a" "(s @ [m0]) ! ?r = m0"
    using assms by (simp_all add: nth_append)
  obtain res2 s2 where c: "store_copy_entries (s @ [m0]) ?r (data (s ! a)) = (res2, s2)"
    by (cases "store_copy_entries (s @ [m0]) ?r (data (s ! a))")
  have "runs_as (s @ [m0]) ?r (res2, s2) (copy_entries m0 (data (s ! a)))"
    using store_copy_entries_runs [of ?r "s @ [m0]" "data (s ! a)"] by (simp add: c)
  note f2 = fresh_run [OF this]
  note g2 = fresh_store [OF f2(1,2)]
  have unfold: "store_add s a b =
      (case (res2, s2) of (Inl e, s2) \<Rightarrow> (Inl e, s2)
       | (Inr u, s2) \<Rightarrow>
           (case store_add_entries s2 ?r (data (s2 ! b)) of
              (Inl e, s3) \<Rightarrow> (Inl e, s3)
            | (Inr u, s3) \<Rightarrow> (Inr ?r, s3)))"
    unfolding store_add_def if_not_P [OF False] store_new_def
    by (simp add: m0_def [symmetric] s1 c)
  have pure: "matrix_add (s ! a) (s ! b) =
      (case copy_entries m0 (data (s ! a)) of Inl e \<Rightarrow> Inl e
       | Inr result \<Rightarrow> add_entries result (data (s ! b)))"
    unfolding matrix_add_def if_not_P [OF False] by (simp add: m0_def)
  show ?thesis
  proof (cases res2)
    case (Inl e)
    with f2 unfold pure show ?thesis
      by (simp add: operands_kept_def outcome_def)
  next
    case (Inr u)
    with f2(3) have cp: "copy_entries m0 (data (s ! a)) = Inr (s2 ! ?r)" by simp
    obtain res3 s3 where d: "store_add_entries s2 ?r (data (s ! b)) = (res3, s3)"
      by (cases "store_add_entries s2 ?r (data (s ! b))")
    have "runs_as s2 ?r (res3, s3) (add_entries (s2 ! ?r) (data (s ! b)))"
      using store_add_entries_runs [of ?r s2 "data (s ! b)"] f2(1) by (simp add: d)
    then have "runs_as (s @ [s2 ! ?r]) ?r (res3, s3) (add_entries (s2 ! ?r) (data (s ! b)))"
      using g2(1) by simp
    note f3 = fresh_run [OF this]
    show ?thesis
    proof (cases res3)
      case (Inl e)
      with f3 unfold pure cp Inr d g2(2) [OF assms(2)] show ?thesis
        by (simp add: operands_kept_def outcome_def)
    next
      case (Inr u')
      with f3 unfold pure cp \<open>res2 = Inr u\<close> d g2(2) [OF assms(2)] assms show ?thesis
        by (simp add: operands_kept_def outcome_def)
    qed
  qed
qed

lemma store_sub_refines:
  assumes "a < length s" and "b < length s"
  shows "operands_kept s a b (store_sub s a b) \<and>
         outcome (store_sub s a b) = matrix_sub (s ! a) (s ! b)"
proof (cases "rows (s ! a) \<noteq> rows (s ! b) \<or> cols (s ! a) \<noteq> cols (s ! b)")
  case True
  then show ?thesis
    by (simp add: store_sub_def matrix_sub_def operands_kept_def outcome_def)
next
  case False
  define m0 where "m0 = matrix_init (rows (s ! a)) (cols (s ! a))"
  let ?r = "length s"
  have s1: "(s @ [m0]) ! a = s ! a" "(s @ [m0]) ! ?r = m0"
    using assms by (simp_all add: nth_append)
  obtain res2 s2 where c: "store_copy_entries (s @ [m0]) ?r (data (s ! a)) = (res2, s2)"
    by (cases "store_copy_entries (s @ [m0]) ?r (data (s ! a))")
  have "runs_as (s @ [m0]) ?r (res2, s2) (copy_entries m0 (data (s ! a)))"
    using store_copy_entries_runs [of ?r "s @ [m0]" "data (s ! a)"] by (simp add: c)
  note f2 = fresh_run [OF this]
  note g2 = fresh_store [OF f2(1,2)]
  have unfold: "store_sub s a b =
      (case (res2, s2) of (Inl e, s2) \<Rightarrow> (Inl e, s2)
       | (Inr u, s2) \<Rightarrow>
           (case store_sub_entries s2 ?r (data (s2 ! b)) of
              (Inl e, s3) \<Rightarrow> (Inl e, s3)
            | (Inr u, s3) \<Rightarrow> (Inr ?r, s3)))"
    unfolding store_sub_def if_not_P [OF False] store_new_def
    by (simp add: m0_def [symmetric] s1 c)
  have pure: "matrix_sub (s ! a) (s ! b) =
      (case copy_entries m0 (data (s ! a)) of Inl e \<Rightarrow> Inl e
       | Inr result \<Rightarrow> sub_entries result (data (s ! b)))"
    unfolding matrix_sub_def if_not_P [OF False] by (simp add: m0_def)
  show ?thesis
  proof (cases res2)
    case (Inl e)
    with f2 unfold pure show ?thesis
      by (simp add: operands_kept_def outcome_def)
  next
    case (Inr u)
    with f2(3) have cp: "copy_entries m0 (data (s ! a)) = Inr (s2 ! ?r)" by simp
    obtain res3 s3 where d: "store_sub_entries s2 ?r (data (s ! b)) = (res3, s3)"
      by (cases "store_sub_entries s2 ?r (data (s ! b))")
    have "runs_as s2 ?r (res3, s3) (sub_entries (s2 ! ?r) (data (s ! b)))"
      using store_sub_entries_runs [of ?r s2 "data (s ! b)"] f2(1) by (simp add: d)
    then have "runs_as (s @ [s2 ! ?r]) ?r (res3, s3) (sub_entries (s2 ! ?r) (data (s ! b)))"
      using g2(1) by simp
    note f3 = fresh_run [OF this]
    show ?thesis
    proof (cases res3)
      case (Inl e)
      with f3 unfold pure cp Inr d g2(2) [OF assms(2)] show ?thesis
        by (simp add: operands_kept_def outcome_def)
    next
      case (Inr u')
      with f3 unfold pure cp \<open>res2 = Inr u\<close> d g2(2) [OF assms(2)] assms show ?thesis
        by (simp add: operands_kept_def outcome_def)
    qed
  qed
qed

lemma store_matmul_refines:
  assumes "a < length s" and "b < length s"
  shows "operands_kept s a b (store_matmul s a b) \<and>
         outcome (store_matmul s a b) = matrix_matmul (s ! a) (s ! b)"
proof (cases "cols (s ! a) \<noteq> rows (s ! b)")
  case True
  then show ?thesis
    by (simp add: store_matmul_def matrix_matmul_def operands_kept_def outcome_def)
next
  case False
  define m0 where "m0 = matrix_init (rows (s ! a)) (cols (s ! b))"
  define om where "om = build_other_map [] (data (s ! b))"
  let ?r = "length s"
  have s1: "(s @ [m0]) ! a = s ! a" "(s @ [m0]) ! b = s ! b" "(s @ [m0]) ! ?r = m0"
    using assms by (simp_all add: nth_append)
  obtain res2 s2 where c: "store_mul_entries (s @ [m0]) ?r om (data (s ! a)) = (res2, s2)"
    by (cases "store_mul_entries (s @ [m0]) ?r om (data (s ! a))")
  have "runs_as (s @ [m0]) ?r (res2, s2) (mul_entries m0 om (data (s ! a)))"
    using store_mul_entries_runs [of ?r "s @ [m0]" om "data (s ! a)"] by (simp add: c)
  note f2 = fresh_run [OF this]
  have unfold: "store_matmul s a b =
      (case (res2, s2) of (Inl e, s2) \<Rightarrow> (Inl e, s2) | (Inr u, s2) \<Rightarrow> (Inr ?r, s2))"
    unfolding store_matmul_def if_not_P [OF False] store_new_def
    by (simp add: m0_def [symmetric] s1 om_def [symmetric] c)
  have pure: "matrix_matmul (s ! a) (s ! b) = mul_entries m0 om (data (s ! a))"
    unfolding matrix_matmul_def if_not_P [OF False] by (simp add: m0_def om_def)
  show ?thesis
  proof (cases res2)
    case (Inl e)
    with f2 unfold pure show ?thesis
      by (simp add: operands_kept_def outcome_def)
  next
    case (Inr u)
    with f2 unfold pure assms show ?thesis
      by (simp add: operands_kept_def outcome_def)
  qed
qed

text \<open>
  Claim C9. For operands at any two addresses of a store, also the same address twice,
  \<^verbatim>\<open>+\<close>, \<^verbatim>\<open>-\<close> and \<^verbatim>\<open>@\<close> leave every object that the store held as it was, whether the
  call returns or raises, so each operand keeps its \<open>rows\<close>, \<open>cols\<close> and stored entries.
  A result is an object at an address that the store did not have before the call,
  different from both operands, and it is the matrix that the operation computes from
  the two operand values.
\<close>

theorem operands_unchanged:
  assumes "a < length s" and "b < length s"
  shows "operands_kept s a b (store_add s a b)
       \<and> outcome (store_add s a b) = matrix_add (s ! a) (s ! b)
       \<and> operands_kept s a b (store_sub s a b)
       \<and> outcome (store_sub s a b) = matrix_sub (s ! a) (s ! b)
       \<and> operands_kept s a b (store_matmul s a b)
       \<and> outcome (store_matmul s a b) = matrix_matmul (s ! a) (s ! b)"
  using store_add_refines [OF assms] store_sub_refines [OF assms] store_matmul_refines [OF assms]
  by simp

theorem operands_unchanged_witness:
  "(0::nat) < length ex_store \<and> (1::nat) < length ex_store
   \<and> store_matmul ex_store 0 1
       = (Inr 4, ex_store @ [\<lparr>rows = 1, cols = 1, data = [((0, 0), 39)]\<rparr>])
   \<and> operands_kept ex_store 0 1 (store_matmul ex_store 0 1)
   \<and> store_add ex_store 0 1 = (Inl (ValueError ''Matrix dimensions must match''), ex_store)
   \<and> operands_kept ex_store 0 1 (store_add ex_store 0 1)
   \<and> store_add ex_store 2 2
       = (Inr 4, ex_store @ [\<lparr>rows = 2, cols = 2, data = [((0, 0), 2), ((1, 1), 4)]\<rparr>])"
proof -
  have len: "(0::nat) < length ex_store" "(1::nat) < length ex_store"
    by (simp_all add: ex_store_def)
  have "store_matmul ex_store 0 1
       = (Inr 4, ex_store @ [\<lparr>rows = 1, cols = 1, data = [((0, 0), 39)]\<rparr>])"
    by (simp add: ex_store_def ex_A_def ex_B_def store_matmul_def store_new_def matrix_init_def
        setdefault_append_def store_set_def store_get_def set_at_def get_at_def dict_get_def)
  moreover have "store_add ex_store 0 1
       = (Inl (ValueError ''Matrix dimensions must match''), ex_store)"
    by (simp add: ex_store_def ex_A_def ex_B_def store_add_def)
  moreover have "store_add ex_store 2 2
       = (Inr 4, ex_store @ [\<lparr>rows = 2, cols = 2, data = [((0, 0), 2), ((1, 1), 4)]\<rparr>])"
    by (simp add: ex_store_def ex_P_def store_add_def store_new_def matrix_init_def
        store_set_def store_get_def set_at_def get_at_def dict_get_def)
  ultimately show ?thesis
    using operands_unchanged [OF len] len by simp
qed

section \<open>Integers as text\<close>

lemma digit_char_digit:
  assumes "n < 10"
  shows "is_digit (digit_char n)" and "digit_val (digit_char n) = n"
proof -
  from assms have "n \<in> {0, 1, 2, 3, 4, 5, 6, 7, 8, 9}" by auto
  then show "is_digit (digit_char n)" and "digit_val (digit_char n) = n"
    by (auto simp: digit_char_def is_digit_def digit_val_def)
qed

lemma is_digit_not_special:
  assumes "is_digit c"
  shows "\<not> is_space c" and "\<not> int_space c" and "c \<noteq> CHR ''-''" and "c \<noteq> CHR ''+''"
    and "c \<noteq> CHR ''_''" and "c \<noteq> CHR '',''" and "c \<noteq> CHR ''=''"
    and "c \<noteq> CHR 0x0A" and "c \<noteq> CHR 0x0D"
  using assms by (auto simp: is_digit_def is_space_def int_space_def)

lemma str_nat_digits: "list_all is_digit (str_nat n)"
proof (induction n rule: str_nat.induct)
  case (1 n)
  show ?case
  proof (cases "n < 10")
    case True
    then show ?thesis by (subst str_nat.simps) (simp add: digit_char_digit)
  next
    case False
    with 1 show ?thesis by (subst str_nat.simps) (simp add: digit_char_digit)
  qed
qed

lemma str_nat_nonempty: "str_nat n \<noteq> []"
  by (subst str_nat.simps) simp

lemma dec_value_str_nat: "dec_value 0 (str_nat n) = n"
proof (induction n rule: str_nat.induct)
  case (1 n)
  show ?case
  proof (cases "n < 10")
    case True
    then show ?thesis by (subst str_nat.simps) (simp add: dec_value_def digit_char_digit)
  next
    case False
    with 1 have "dec_value 0 (str_nat (n div 10)) = n div 10" by simp
    with False show ?thesis
      by (subst str_nat.simps) (simp add: dec_value_def digit_char_digit)
  qed
qed

lemma str_nat_length: "10 ^ k \<le> n \<Longrightarrow> k < length (str_nat n)"
proof (induction k arbitrary: n)
  case 0
  then show ?case using str_nat_nonempty [of n] by (cases "str_nat n") simp_all
next
  case (Suc k)
  have one: "(1::nat) \<le> 10 ^ k" by simp
  from Suc.prems have p: "10 * 10 ^ k \<le> n" by simp
  from one p have big: "\<not> n < 10" by linarith
  from div_le_mono [OF p, of 10] have "10 ^ k \<le> n div 10" by simp
  from Suc.IH [OF this] big show ?case
    by (subst str_nat.simps) simp
qed

lemma str_nat_length_mono: "a \<le> b \<Longrightarrow> length (str_nat a) \<le> length (str_nat b)"
proof (induction b arbitrary: a rule: str_nat.induct)
  case (1 b)
  show ?case
  proof (cases "a < 10")
    case True
    then have "length (str_nat a) = 1" by (subst str_nat.simps) simp
    then show ?thesis
      using str_nat_nonempty [of b] by (cases "str_nat b") simp_all
  next
    case False
    with "1.prems" have b: "\<not> b < 10" and le: "a div 10 \<le> b div 10"
      by (auto intro: div_le_mono)
    from "1.IH" [OF b le] False b show ?thesis
      by (subst str_nat.simps, subst (2) str_nat.simps) simp
  qed
qed

lemma int_digits_all: "list_all is_digit ds \<Longrightarrow> int_digits ds acc = Some (dec_value acc ds)"
  by (induction ds arbitrary: acc) (simp_all add: dec_value_def)

lemma parse_nat_str_nat:
  assumes "\<not> over_limit lim (length (str_nat n))"
  shows "parse_nat lim (str_nat n) = Some n"
proof -
  obtain c cs where s: "str_nat n = c # cs"
    using str_nat_nonempty [of n] by (cases "str_nat n") auto
  have d: "is_digit c" "list_all is_digit cs"
    using str_nat_digits [of n] by (simp_all add: s)
  have f: "filter is_digit (str_nat n) = str_nat n"
    using str_nat_digits [of n] by (simp add: list_all_iff)
  have "dec_value (digit_val c) cs = dec_value 0 (c # cs)"
    by (simp add: dec_value_def)
  then have "int_digits cs (digit_val c) = Some n"
    using d dec_value_str_nat [of n] by (simp add: s int_digits_all)
  then show ?thesis
    using assms d(1) unfolding parse_nat_def f by (simp add: s)
qed

lemma strip_id:
  assumes "s \<noteq> []" and "\<not> is_space (hd s)" and "\<not> is_space (last s)"
  shows "strip s = s"
proof -
  have "dropWhile is_space s = s"
    using assms(1,2) by (cases s) simp_all
  moreover have "dropWhile is_space (rev s) = rev s"
    using assms(1,3) by (cases "rev s") (simp_all add: last_rev [symmetric] del: last_rev)
  ultimately show ?thesis by (simp add: strip_def)
qed

lemma int_strip_id:
  assumes "s \<noteq> []" and "\<not> int_space (hd s)" and "\<not> int_space (last s)"
  shows "int_strip s = s"
proof -
  have "dropWhile int_space s = s"
    using assms(1,2) by (cases s) simp_all
  moreover have "dropWhile int_space (rev s) = rev s"
    using assms(1,3) by (cases "rev s") (simp_all add: last_rev [symmetric] del: last_rev)
  ultimately show ?thesis by (simp add: int_strip_def)
qed

lemma strip_space_Cons: "is_space c \<Longrightarrow> strip (c # s) = strip s"
  by (simp add: strip_def)

lemma str_int_chars: "list_all (\<lambda>c. is_digit c \<or> c = CHR ''-'') (str_int i)"
  using str_nat_digits [of "nat i"] str_nat_digits [of "nat (- i)"]
  by (auto simp: str_int_def list_all_iff)

lemma str_int_ends:
  shows "str_int i \<noteq> []" and "\<not> is_space (hd (str_int i))" and "\<not> int_space (hd (str_int i))"
    and "is_digit (last (str_int i))"
proof -
  show "str_int i \<noteq> []" by (simp add: str_int_def str_nat_nonempty)
  have "\<not> is_space (hd (str_nat n)) \<and> \<not> int_space (hd (str_nat n))" for n
    using str_nat_digits [of n] str_nat_nonempty [of n]
    by (cases "str_nat n") (auto simp: is_digit_not_special)
  then show "\<not> is_space (hd (str_int i))" "\<not> int_space (hd (str_int i))"
    by (simp_all add: str_int_def is_space_def int_space_def)
  have "is_digit (last (str_nat n))" for n
    using str_nat_digits [of n] str_nat_nonempty [of n]
    by (simp add: list_all_iff)
  then show "is_digit (last (str_int i))"
    by (simp add: str_int_def str_nat_nonempty)
qed

lemma strip_str_int: "strip (str_int i) = str_int i"
  using str_int_ends [of i] by (intro strip_id) (simp_all add: is_digit_not_special)

lemma int_strip_str_int: "int_strip (str_int i) = str_int i"
  using str_int_ends [of i] by (intro int_strip_id) (simp_all add: is_digit_not_special)

lemma py_int_str_int:
  assumes "fits lim i"
  shows "py_int lim (str_int i) = Some i"
proof (cases "i < 0")
  case True
  then have "nat \<bar>i\<bar> = nat (- i)" by simp
  with assms have "parse_nat lim (str_nat (nat (- i))) = Some (nat (- i))"
    by (intro parse_nat_str_nat) (simp add: fits_def)
  with True show ?thesis
    by (simp add: py_int_def int_strip_str_int) (simp add: str_int_def)
next
  case False
  then have "nat \<bar>i\<bar> = nat i" by simp
  with assms have p: "parse_nat lim (str_nat (nat i)) = Some (nat i)"
    by (intro parse_nat_str_nat) (simp add: fits_def)
  obtain c cs where s: "str_nat (nat i) = c # cs"
    using str_nat_nonempty [of "nat i"] by (cases "str_nat (nat i)") auto
  have "is_digit c" using str_nat_digits [of "nat i"] by (simp add: s)
  then have "c \<noteq> CHR ''-''" "c \<noteq> CHR ''+''" by (simp_all add: is_digit_not_special)
  moreover have e: "str_int i = c # cs" using False by (simp add: str_int_def s)
  moreover have "int_strip (c # cs) = c # cs" using int_strip_str_int [of i] by (simp add: e)
  ultimately show ?thesis
    using False p by (simp add: py_int_def s)
qed

lemma format_int_fits: "fits lim i \<Longrightarrow> format_int lim i = Inr (str_int i)"
  by (simp add: format_int_def fits_def)

lemma fits_mono:
  assumes "fits lim b" and "0 \<le> a" and "a \<le> b"
  shows "fits lim a"
proof -
  have "length (str_nat (nat \<bar>a\<bar>)) \<le> length (str_nat (nat \<bar>b\<bar>))"
    using assms(2,3) by (intro str_nat_length_mono) simp
  with assms(1) show ?thesis
    by (auto simp: fits_def over_limit_def)
qed

lemma split_on_notin: "sep \<notin> set a \<Longrightarrow> split_on sep a = [a]"
  by (induction a) auto

lemma split_on_append:
  "sep \<notin> set a \<Longrightarrow> split_on sep (a @ sep # b) = a # split_on sep b"
  by (induction a) auto

lemma str_int_no_sep:
  "CHR '','' \<notin> set (str_int i)" "CHR ''='' \<notin> set (str_int i)"
  "CHR 0x0A \<notin> set (str_int i)" "CHR 0x0D \<notin> set (str_int i)"
proof -
  have "c \<noteq> CHR '','' \<and> c \<noteq> CHR ''='' \<and> c \<noteq> CHR 0x0A \<and> c \<noteq> CHR 0x0D"
    if "c \<in> set (str_int i)" for c
  proof -
    from that str_int_chars [of i] have "is_digit c \<or> c = CHR ''-''"
      by (simp add: list_all_iff)
    then show ?thesis
      by (auto simp: is_digit_def)
  qed
  then show "CHR '','' \<notin> set (str_int i)" "CHR ''='' \<notin> set (str_int i)"
    "CHR 0x0A \<notin> set (str_int i)" "CHR 0x0D \<notin> set (str_int i)"
    by blast+
qed

lemma parse_triple_format:
  assumes "fits lim r" and "fits lim c" and "fits lim v"
  shows "parse_triple lim (str_int r @ '', '' @ str_int c @ '', '' @ str_int v) = Some (r, c, v)"
proof -
  have "split_on CHR '','' (str_int r @ '', '' @ str_int c @ '', '' @ str_int v) =
        [str_int r, CHR '' '' # str_int c, CHR '' '' # str_int v]"
    using split_on_append [of "CHR '',''" "str_int r" "CHR '' '' # str_int c @ '', '' @ str_int v"]
      split_on_append [of "CHR '',''" "CHR '' '' # str_int c" "CHR '' '' # str_int v"]
      split_on_notin [of "CHR '',''" "CHR '' '' # str_int v"]
    by (simp add: str_int_no_sep)
  moreover have "strip (CHR '' '' # s) = strip s" for s
    by (rule strip_space_Cons) (simp add: is_space_def)
  ultimately show ?thesis
    using assms by (simp add: parse_triple_def strip_str_int py_int_str_int)
qed

lemma endswith_append: "endswith (xs @ p) p"
  by (simp add: endswith_def)

lemma entry_text_shape:
  "startswith (entry_text r c v) ''(''" "endswith (entry_text r c v) '')''"
  "butlast (tl (entry_text r c v)) = str_int r @ '', '' @ str_int c @ '', '' @ str_int v"
proof -
  let ?body = "str_int r @ '', '' @ str_int c @ '', '' @ str_int v"
  have f: "entry_text r c v = (''('' @ ?body) @ '')''"
    by (simp add: entry_text_def)
  show "startswith (entry_text r c v) ''(''"
    by (simp add: entry_text_def startswith_def)
  show "endswith (entry_text r c v) '')''"
    unfolding f by (rule endswith_append)
  have "butlast (tl ((''('' @ ?body) @ '')'')) = ?body"
    by (simp add: butlast_append)
  then show "butlast (tl (entry_text r c v)) = ?body"
    unfolding f .
qed

lemma header_int_line:
  assumes "fits lim n"
  shows "header_int lim (''rows='' @ str_int n) = Some n"
    and "header_int lim (''cols='' @ str_int n) = Some n"
  using split_on_append [of "CHR ''=''" "''rows''" "str_int n"]
    split_on_append [of "CHR ''=''" "''cols''" "str_int n"]
    split_on_notin [of "CHR ''=''" "str_int n"] assms
  by (simp_all add: header_int_def str_int_no_sep py_int_str_int)

section \<open>Lines, serialisation and loading\<close>

lemma file_lines_notin:
  "CHR 0x0A \<notin> set a \<Longrightarrow> CHR 0x0D \<notin> set a \<Longrightarrow> file_lines a = [a]"
  by (induction a) auto

lemma file_lines_append:
  "CHR 0x0A \<notin> set a \<Longrightarrow> CHR 0x0D \<notin> set a \<Longrightarrow>
   file_lines (a @ CHR 0x0A # b) = a # file_lines b"
  by (induction a) auto

lemma file_lines_join:
  assumes "list_all clean_line ls" and "ls \<noteq> []"
  shows "file_lines (join [CHR 0x0A] ls) = ls"
  using assms
proof (induction "[CHR 0x0A]" ls rule: join.induct)
  case 1
  then show ?case by simp
next
  case (2 x)
  then show ?case by (simp add: clean_line_def file_lines_notin)
next
  case (3 x y zs)
  then show ?case by (simp add: clean_line_def file_lines_append)
qed

lemma stripped_lines_join:
  assumes "list_all clean_line ls" and "ls \<noteq> []"
  shows "stripped_lines (join [CHR 0x0A] ls) = ls"
proof -
  have "filter (\<lambda>l. l \<noteq> []) (map strip ls) = ls"
    using assms(1) by (induction ls) (simp_all add: clean_line_def)
  then show ?thesis
    by (simp add: stripped_lines_def file_lines_join [OF assms])
qed

lemma clean_header:
  "clean_line (''rows='' @ str_int n)" "clean_line (''cols='' @ str_int n)"
proof -
  have "clean_line (p @ str_int n)"
    if "p \<noteq> []" "\<not> is_space (hd p)" "CHR 0x0A \<notin> set p" "CHR 0x0D \<notin> set p" for p
  proof -
    have "strip (p @ str_int n) = p @ str_int n"
      using that str_int_ends [of n] by (intro strip_id) (simp_all add: is_digit_not_special)
    then show ?thesis
      using that by (simp add: clean_line_def str_int_no_sep)
  qed
  from this [of "''rows=''"] this [of "''cols=''"]
  show "clean_line (''rows='' @ str_int n)" "clean_line (''cols='' @ str_int n)"
    by (simp_all add: is_space_def)
qed

lemma clean_entry_line: "clean_line (entry_line e)"
proof -
  obtain r c v where e: "e = ((r, c), v)" by (metis surj_pair)
  have "strip (entry_text r c v) = entry_text r c v"
    by (intro strip_id) (simp_all add: entry_text_def is_space_def)
  then show ?thesis
    by (simp add: clean_line_def entry_line_def e) (simp add: entry_text_def str_int_no_sep)
qed

lemma update_fresh: "k \<notin> fst ` set d \<Longrightarrow> AList.update k v d = d @ [(k, v)]"
  by (induction d) auto

lemma load_entries_formatted:
  assumes "keys_in nr nc es" and "list_all (\<lambda>(k, v). v \<noteq> 0) es" and "is_dict es"
    and "list_all (\<lambda>((r, c), v). fits lim r \<and> fits lim c \<and> fits lim v) es"
    and "fst ` set es \<inter> fst ` set (data m) = {}" and "rows m = nr" and "cols m = nc"
  shows "load_entries lim m nr nc (map entry_line es) = Inr (m\<lparr>data := data m @ es\<rparr>)"
  using assms
proof (induction es arbitrary: m)
  case Nil
  then show ?case by simp
next
  case (Cons e es)
  obtain r c v where e: "e = ((r, c), v)" by (metis surj_pair)
  from Cons.prems have rc: "0 \<le> r" "r < nr" "0 \<le> c" "c < nc" and v: "v \<noteq> 0"
    and fresh: "(r, c) \<notin> fst ` set (data m)" and notin: "(r, c) \<notin> fst ` set es"
    and fit: "fits lim r" "fits lim c" "fits lim v"
    by (auto simp: keys_in_def e is_dict_def)
  let ?m1 = "m\<lparr>data := data m @ [((r, c), v)]\<rparr>"
  have s: "set_at m r c v = Inr ?m1"
    using rc v Cons.prems(6,7) by (simp add: set_at_def update_fresh [OF fresh])
  have "load_entries lim ?m1 nr nc (map entry_line es) = Inr (?m1\<lparr>data := data ?m1 @ es\<rparr>)"
    using Cons.prems notin by (intro Cons.IH) (auto simp: keys_in_def e is_dict_def)
  moreover have line: "entry_line e = entry_text r c v"
    by (simp add: e entry_line_def)
  moreover have "parse_triple lim (butlast (tl (entry_text r c v))) = Some (r, c, v)"
    using parse_triple_format [OF fit] by (simp only: entry_text_shape(3))
  ultimately show ?case
    using rc s by (simp add: entry_text_shape(1,2)) (simp add: e)
qed

lemma format_entry_fits:
  assumes "map_of d (r, c) = Some v" and "fits lim r" and "fits lim c" and "fits lim v"
  shows "format_entry lim d r c = Inr (entry_text r c v)"
  using assms by (simp add: format_entry_def format_int_fits entry_text_def)

lemma entry_lines_keys:
  assumes "set ks \<subseteq> fst ` set d"
    and "\<forall>(r, c) \<in> set ks. fits lim r \<and> fits lim c \<and> fits lim (dict_get d (r, c) 0)"
  shows "entry_lines lim d ks = Inr (map (\<lambda>k. entry_line (k, dict_get d k 0)) ks)"
  using assms
proof (induction ks)
  case Nil
  then show ?case by simp
next
  case (Cons k ks)
  obtain r c where k: "k = (r, c)" by (cases k)
  from Cons.prems have "map_of d (r, c) \<noteq> None"
    by (simp add: k map_of_eq_None_iff)
  then obtain v where v: "map_of d (r, c) = Some v" by blast
  then have g: "dict_get d (r, c) 0 = v" by (simp add: dict_get_def)
  from Cons.prems(2) have "fits lim r" "fits lim c" "fits lim v"
    by (simp_all add: k g)
  from format_entry_fits [OF v this] Cons show ?case
    by (simp add: k g entry_line_def)
qed

lemma sorted_items_props:
  assumes "is_dict d"
  shows "set (sorted_items d) = set d" and "is_dict (sorted_items d)"
    and "sorted_wrt row_major (map fst (sorted_items d))"
proof -
  have keys: "map fst (sorted_items d) = sort (map fst d)"
    by (simp add: sorted_items_def comp_def)
  have val: "dict_get d k 0 = v" if "(k, v) \<in> set d" for k v
    using that assms by (simp add: dict_get_def is_dict_def)
  show "set (sorted_items d) = set d"
  proof
    show "set (sorted_items d) \<subseteq> set d"
      using val by (auto simp: sorted_items_def)
    show "set d \<subseteq> set (sorted_items d)"
      using val by (force simp: sorted_items_def)
  qed
  show "is_dict (sorted_items d)"
    using assms by (simp add: is_dict_def keys)
  have "sorted_wrt (<) (sort (map fst d))"
    using assms by (simp add: is_dict_def strict_sorted_iff)
  then have "sorted_wrt row_major (sort (map fst d))"
    by (rule sorted_wrt_mono_rel [rotated]) (auto simp: row_major_def less_prod_def)
  then show "sorted_wrt row_major (map fst (sorted_items d))"
    by (simp add: keys)
qed

lemma entries_fit:
  assumes "is_dict (data m)" and "in_bounds m" and "all_fit lim m" and "((r, c), v) \<in> set (data m)"
  shows "fits lim r" and "fits lim c" and "fits lim v"
proof -
  from assms(2,4) have rc: "0 \<le> r" "r < rows m" "0 \<le> c" "c < cols m"
    by (auto simp: in_bounds_def keys_in_def list_all_iff)
  from assms(3) have f: "fits lim (rows m)" "fits lim (cols m)"
    by (simp_all add: all_fit_def)
  show "fits lim r" using fits_mono [OF f(1) rc(1)] rc(2) by simp
  show "fits lim c" using fits_mono [OF f(2) rc(3)] rc(4) by simp
  show "fits lim v" using assms(3,4) by (auto simp: all_fit_def list_all_iff)
qed

lemma matrix_str_fits:
  assumes "is_dict (data m)" and "in_bounds m" and "all_fit lim m"
  shows "matrix_str lim m = Inr (join [CHR 0x0A]
     ([''rows='' @ str_int (rows m), ''cols='' @ str_int (cols m)]
      @ map entry_line (sorted_items (data m))))"
proof -
  have "fits lim r \<and> fits lim c \<and> fits lim (dict_get (data m) (r, c) 0)"
    if "(r, c) \<in> set (sort (map fst (data m)))" for r c
  proof -
    from that obtain v where v: "((r, c), v) \<in> set (data m)" by auto
    then have "dict_get (data m) (r, c) 0 = v"
      using assms(1) by (simp add: dict_get_def is_dict_def)
    with entries_fit [OF assms v] show ?thesis by simp
  qed
  then have "\<forall>(r, c) \<in> set (sort (map fst (data m))).
      fits lim r \<and> fits lim c \<and> fits lim (dict_get (data m) (r, c) 0)"
    by blast
  moreover have "set (sort (map fst (data m))) \<subseteq> fst ` set (data m)"
    by simp
  ultimately have "entry_lines lim (data m) (sort (map fst (data m))) =
        Inr (map entry_line (sorted_items (data m)))"
    by (simp add: entry_lines_keys sorted_items_def comp_def)
  then show ?thesis
    using assms(3) by (simp add: matrix_str_def all_fit_def format_int_fits)
qed

lemma load_entries_step:
  assumes "load_entries lim m nr nc ls = Inr m'"
  shows "rows m' = rows m \<and> cols m' = cols m \<and> (nonzero m \<longrightarrow> nonzero m')
       \<and> (in_bounds m \<longrightarrow> in_bounds m') \<and> (is_dict (data m) \<longrightarrow> is_dict (data m'))"
  using assms
proof (induction ls arbitrary: m)
  case Nil
  then show ?case by simp
next
  case (Cons l ls)
  from Cons.prems obtain r c v m1 where
    s: "set_at m r c v = Inr m1" and rest: "load_entries lim m1 nr nc ls = Inr m'"
    by (auto split: if_splits option.splits sum.splits)
  from Cons.IH [OF rest] set_at_Inr(1,2) [OF s] nonzero_set_at [OF s] in_bounds_set_at [OF s]
    is_dict_set_at [OF s]
  show ?case by auto
qed


lemma load_entries_rejects:
  assumes "l \<in> set ls" and "malformed_entry lim l \<or> out_of_range_entry lim nr nc l"
    and "rows m = nr" and "cols m = nc"
  shows "load_entries lim m nr nc ls = Inl (ValueError ''Invalid file format'')"
  using assms
proof (induction ls arbitrary: m)
  case Nil
  then show ?case by simp
next
  case (Cons x ls)
  show ?case
  proof (cases "malformed_entry lim x \<or> out_of_range_entry lim nr nc x")
    case True
    then show ?thesis
      by (auto simp: malformed_entry_def out_of_range_entry_def split: option.splits)
  next
    case False
    with Cons.prems have mem: "l \<in> set ls" by auto
    from False obtain r c v where p: "startswith x ''(''" "endswith x '')''"
      "parse_triple lim (butlast (tl x)) = Some (r, c, v)"
      "0 \<le> r" "r < nr" "0 \<le> c" "c < nc"
      by (auto simp: malformed_entry_def out_of_range_entry_def split: option.splits)
    then obtain m1 where s: "set_at m r c v = Inr m1"
      using set_at_in_range [of r m c v] Cons.prems(3,4) by auto
    have "load_entries lim m1 nr nc ls = Inl (ValueError ''Invalid file format'')"
      using Cons.IH [OF mem Cons.prems(2)] set_at_Inr(1,2) [OF s] Cons.prems(3,4) by simp
    with p s show ?thesis by simp
  qed
qed

lemma load_from_cases:
  assumes "files filename = Inr content"
  shows "load_from lim files filename =
     (if header_rejected lim (stripped_lines content)
      then Inl (ValueError ''Input file has wrong format'')
      else load_entries lim
             (matrix_init (the (header_int lim (stripped_lines content ! 0)))
                (the (header_int lim (stripped_lines content ! 1))))
             (the (header_int lim (stripped_lines content ! 0)))
             (the (header_int lim (stripped_lines content ! 1)))
             (drop 2 (stripped_lines content)))"
  using assms
  by (auto simp: load_from_def header_rejected_def Let_def split: option.splits)

lemma load_from_valid:
  assumes "load_from lim files filename = Inr m"
  shows "valid m"
proof -
  from assms obtain content where c: "files filename = Inr content"
    by (auto simp: load_from_def split: sum.splits)
  from assms obtain nr nc ls where "load_entries lim (matrix_init nr nc) nr nc ls = Inr m"
    unfolding load_from_cases [of files filename content lim, OF c] by (auto split: if_splits)
  from load_entries_step [OF this] show ?thesis
    by (simp add: valid_def nonzero_init)
qed

lemma reachable_valid: "reachable m \<Longrightarrow> valid m"
proof (induction rule: reachable.induct)
  case (by_init r c)
  then show ?case by (simp add: valid_def nonzero_init)
next
  case (by_set m r c v m')
  then show ?case
    using nonzero_set_at in_bounds_set_at is_dict_set_at by (auto simp: valid_def)
next
  case (by_load lim files filename m)
  then show ?case by (rule load_from_valid)
next
  case (by_add a b m)
  then have ba: "in_bounds a" "in_bounds b" by (simp_all add: valid_def)
  from by_add.hyps(3) have "rows a = rows b" "cols a = cols b"
    by (auto simp: matrix_add_def split: if_splits)
  from add_result [OF ba this] by_add.hyps(3) show ?case by (auto simp: valid_def)
next
  case (by_sub a b m)
  then have ba: "in_bounds a" "in_bounds b" by (simp_all add: valid_def)
  from by_sub.hyps(3) have "rows a = rows b" "cols a = cols b"
    by (auto simp: matrix_sub_def split: if_splits)
  from sub_result [OF ba this] by_sub.hyps(3) show ?case by (auto simp: valid_def)
next
  case (by_matmul a b m)
  then have ba: "in_bounds a" "in_bounds b" by (simp_all add: valid_def)
  from by_matmul.hyps(3) have "cols a = rows b"
    by (auto simp: matrix_matmul_def split: if_splits)
  from matmul_result [OF ba this] by_matmul.hyps(3) show ?case by (auto simp: valid_def)
qed

lemma ex_load:
  "load_from 4300 ex_files ''q.txt''
     = Inr \<lparr>rows = 2, cols = 2, data = [((0, 1), 5), ((1, 1), - 2)]\<rparr>"
  "load_from 4300 ex_files ''far.txt'' = Inl (ValueError ''Invalid file format'')"
  "load_from 4300 ex_files ''short.txt'' = Inl (ValueError ''Invalid file format'')"
  "load_from 4300 ex_files ''neg.txt'' = Inr \<lparr>rows = - 3, cols = 2, data = []\<rparr>"
  "load_from 4300 ex_files ''word.txt'' = Inl (ValueError ''Input file has wrong format'')"
  by code_simp+

section \<open>Properties of serialisation, loading and single entries\<close>

lemma str_nat_small: "n < 10 \<Longrightarrow> length (str_nat n) = 1"
  by (subst str_nat.simps) simp

lemma fits_small: "\<bar>i\<bar> < 10 \<Longrightarrow> fits lim i"
proof -
  assume "\<bar>i\<bar> < 10"
  then have "nat \<bar>i\<bar> < 10" by simp
  then have "length (str_nat (nat \<bar>i\<bar>)) = 1" by (rule str_nat_small)
  then show ?thesis by (auto simp: fits_def over_limit_def)
qed

lemma power_of_ten_over_limit:
  assumes "0 < lim"
  shows "valid \<lparr>rows = 1, cols = 1, data = [((0, 0), 10 ^ lim)]\<rparr>"
    and "set_at (matrix_init 1 1) 0 0 (10 ^ lim)
           = Inr \<lparr>rows = 1, cols = 1, data = [((0, 0), 10 ^ lim)]\<rparr>"
    and "matrix_str lim \<lparr>rows = 1, cols = 1, data = [((0, 0), 10 ^ lim)]\<rparr>
           = Inl (ValueError (limit_message lim))"
proof -
  show "valid \<lparr>rows = 1, cols = 1, data = [((0, 0), 10 ^ lim)]\<rparr>"
    by (simp add: valid_def is_dict_def in_bounds_def keys_in_def nonzero_def)
  show "set_at (matrix_init 1 1) 0 0 (10 ^ lim)
           = Inr \<lparr>rows = 1, cols = 1, data = [((0, 0), 10 ^ lim)]\<rparr>"
    by (simp add: set_at_def matrix_init_def)
  have small: "format_int lim 1 = Inr (str_int 1)" "format_int lim 0 = Inr (str_int 0)"
    by (simp_all add: format_int_fits fits_small)
  have e: "nat \<bar>(10::int) ^ lim\<bar> = 10 ^ lim"
    by (simp add: nat_power_eq)
  have "lim < length (str_nat (10 ^ lim))"
    by (rule str_nat_length) simp
  with assms have "over_limit lim (length (str_nat (nat \<bar>(10::int) ^ lim\<bar>)))"
    unfolding e over_limit_def by simp
  then have big: "format_int lim (10 ^ lim) = Inl (ValueError (limit_message lim))"
    by (simp only: format_int_def if_True)
  have "format_entry lim [((0, 0), 10 ^ lim)] 0 0 = Inl (ValueError (limit_message lim))"
    by (simp add: format_entry_def small big)
  then show "matrix_str lim \<lparr>rows = 1, cols = 1, data = [((0, 0), 10 ^ lim)]\<rparr>
           = Inl (ValueError (limit_message lim))"
    by (simp add: matrix_str_def small)
qed

text \<open>
  Claim C3, as the code has it. For every valid matrix (no key twice, every stored
  coordinate within the extents, no stored zero) whose extents and stored values are
  within the interpreter's bound on the digits of a conversion, \<^verbatim>\<open>__str__\<close> returns a
  text: the two header lines followed by one line per stored entry, the entries in
  ascending order of row and then of column. Loading a file that holds this text
  succeeds and gives a matrix with the same \<open>rows\<close>, the same \<open>cols\<close> and exactly the same
  stored entries.
\<close>

theorem roundtrip:
  assumes "valid m" and "all_fit lim m"
  shows "\<exists>text es. matrix_str lim m = Inr text
           \<and> text = join [CHR 0x0A]
                ([''rows='' @ str_int (rows m), ''cols='' @ str_int (cols m)] @ map entry_line es)
           \<and> set es = set (data m) \<and> sorted_wrt row_major (map fst es)
           \<and> (\<forall>files filename. files filename = Inr text \<longrightarrow>
                (\<exists>m'. load_from lim files filename = Inr m' \<and> rows m' = rows m
                    \<and> cols m' = cols m \<and> set (data m') = set (data m)))"
proof -
  from assms have d: "is_dict (data m)" and b: "in_bounds m" and z: "nonzero m"
    by (simp_all add: valid_def)
  from assms(2) have f: "fits lim (rows m)" "fits lim (cols m)"
    by (simp_all add: all_fit_def)
  define es where "es = sorted_items (data m)"
  define l1 where "l1 = ''rows='' @ str_int (rows m)"
  define l2 where "l2 = ''cols='' @ str_int (cols m)"
  define body where "body = map entry_line es"
  define out where "out = join [CHR 0x0A] ([l1, l2] @ body)"
  note p = sorted_items_props [OF d, folded es_def]
  have clean: "list_all clean_line ([l1, l2] @ body)"
    by (simp add: l1_def l2_def body_def clean_header clean_entry_line list_all_iff
        del: append.simps)
  have sl: "stripped_lines out = l1 # l2 # body"
    unfolding out_def using stripped_lines_join [OF clean] by simp
  have hd: "startswith l1 ''rows=''" "startswith l2 ''cols=''"
    "header_int lim l1 = Some (rows m)" "header_int lim l2 = Some (cols m)"
    unfolding l1_def l2_def
    by (simp_all add: startswith_def header_int_line [OF f(1)] header_int_line [OF f(2)]
        del: append.simps)
  have le: "load_entries lim (matrix_init (rows m) (cols m)) (rows m) (cols m) body
      = Inr ((matrix_init (rows m) (cols m))\<lparr>data := data (matrix_init (rows m) (cols m)) @ es\<rparr>)"
    unfolding body_def
  proof (rule load_entries_formatted)
    show "keys_in (rows m) (cols m) es"
      using b p(1) by (simp add: in_bounds_def keys_in_def list_all_iff)
    show "list_all (\<lambda>(k, v). v \<noteq> 0) es"
      using z p(1) by (simp add: nonzero_def list_all_iff)
    show "is_dict es" by (rule p(2))
    show "list_all (\<lambda>((r, c), v). fits lim r \<and> fits lim c \<and> fits lim v) es"
      using entries_fit [OF d b assms(2)] p(1) by (auto simp: list_all_iff)
  qed (simp_all add: matrix_init_def)
  have "\<exists>m'. load_from lim files filename = Inr m' \<and> rows m' = rows m
            \<and> cols m' = cols m \<and> set (data m') = set (data m)"
    if "files filename = Inr out" for files filename
    using that p(1) by (simp add: load_from_def sl hd le) (simp add: matrix_init_def)
  moreover have "matrix_str lim m = Inr out"
    unfolding out_def l1_def l2_def body_def es_def by (rule matrix_str_fits [OF d b assms(2)])
  moreover have "out = join [CHR 0x0A]
      ([''rows='' @ str_int (rows m), ''cols='' @ str_int (cols m)] @ map entry_line es)"
    unfolding out_def l1_def l2_def body_def ..
  ultimately show ?thesis
    using p(1,3) by blast
qed

lemma str_small: "str_int 2 = ''2''" "str_int 0 = ''0''" "str_int 1 = ''1''" "str_int 5 = ''5''"
  "str_int (- 2) = ''-2''" "str_int (- 3) = ''-3''"
  by (simp_all add: str_int_def str_nat.simps digit_char_def)

lemma ex_Q_fit: "all_fit 4300 ex_Q"
  by (simp add: all_fit_def ex_Q_def fits_small)

lemma ex_Q_str:
  "matrix_str 4300 ex_Q = Inr ''rows=2\<newline>cols=2\<newline>(0, 1, 5)\<newline>(1, 1, -2)''"
  by (simp add: matrix_str_def ex_Q_def format_entry_def format_int_fits fits_small str_small
      less_eq_prod_def)

lemma ex_files_simps:
  "ex_files ''q.txt'' = Inr ''rows=2\<newline>cols=2\<newline>(0, 1, 5)\<newline>(1, 1, -2)''"
  "ex_files ''far.txt'' = Inr ''rows=3\<newline>cols=3\<newline>(5, 0, 1)''"
  "ex_files ''neg.txt'' = Inr ''rows=-3\<newline>cols=2''"
  "ex_files ''word.txt'' = Inr ''rows=three\<newline>cols=2''"
  by (simp_all add: ex_files_def)

theorem roundtrip_witness:
  "valid ex_Q \<and> all_fit 4300 ex_Q
   \<and> matrix_str 4300 ex_Q = Inr ''rows=2\<newline>cols=2\<newline>(0, 1, 5)\<newline>(1, 1, -2)''
   \<and> ex_files ''q.txt'' = Inr ''rows=2\<newline>cols=2\<newline>(0, 1, 5)\<newline>(1, 1, -2)''
   \<and> load_from 4300 ex_files ''q.txt''
       = Inr \<lparr>rows = 2, cols = 2, data = [((0, 1), 5), ((1, 1), - 2)]\<rparr>
   \<and> (\<exists>m'. load_from 4300 ex_files ''q.txt'' = Inr m' \<and> rows m' = rows ex_Q
         \<and> cols m' = cols ex_Q \<and> set (data m') = set (data ex_Q))"
proof -
  have v: "valid ex_Q" using ex_simps by (simp add: valid_def)
  from roundtrip [OF v ex_Q_fit] ex_Q_str ex_files_simps(1)
  have "\<exists>m'. load_from 4300 ex_files ''q.txt'' = Inr m' \<and> rows m' = rows ex_Q
         \<and> cols m' = cols ex_Q \<and> set (data m') = set (data ex_Q)"
    by auto
  with v ex_Q_fit ex_Q_str ex_files_simps(1) ex_load(1) show ?thesis by simp
qed

text \<open>
  Claim C3 as stated fails: the 1 x 1 matrix that holds \<open>10 ^ 4300\<close> is valid, and a
  \<^verbatim>\<open>set\<close> call on a new matrix produces it, but its value has 4301 digits and
  \<^verbatim>\<open>__str__\<close> raises the \<^verbatim>\<open>ValueError\<close> of the interpreter under the default bound of
  4300, so there is no text to read back.
\<close>

theorem roundtrip_digit_limit_counterexample:
  "valid ex_big \<and> reachable ex_big
   \<and> matrix_str 4300 ex_big = Inl (ValueError (limit_message 4300))"
proof -
  have p: "(0::nat) < 4300" by simp
  note big = power_of_ten_over_limit [OF p]
  have "reachable ex_big"
    unfolding ex_big_def by (rule reachable.by_set [OF reachable.by_init big(2)])
  moreover have "valid ex_big"
    unfolding ex_big_def by (rule big(1))
  moreover have "matrix_str 4300 ex_big = Inl (ValueError (limit_message 4300))"
    unfolding ex_big_def by (rule big(3))
  ultimately show ?thesis by blast
qed





text \<open>
  Claim C7, as the code has it. When the header is accepted with extents \<open>nr\<close> and
  \<open>nc\<close> and some entry line parses to a triple whose row or column is outside these
  extents, or is malformed, the load fails while parsing and returns no matrix. Both
  failures are the same \<^verbatim>\<open>ValueError\<close> with the message \<^verbatim>\<open>Invalid file format\<close>.
\<close>

theorem load_from_entry_rejected:
  assumes "files filename = Inr content"
    and "stripped_lines content = h1 # h2 # entries"
    and "startswith h1 ''rows=''" and "startswith h2 ''cols=''"
    and "header_int lim h1 = Some nr" and "header_int lim h2 = Some nc"
    and "l \<in> set entries"
    and "out_of_range_entry lim nr nc l \<or> malformed_entry lim l"
  shows "load_from lim files filename = Inl (ValueError ''Invalid file format'')"
proof -
  have "load_entries lim (matrix_init nr nc) nr nc entries
        = Inl (ValueError ''Invalid file format'')"
    using assms(7,8) by (intro load_entries_rejects [of l]) (auto simp: nonzero_init)
  then show ?thesis
    using assms(1-6) by (simp add: load_from_def)
qed

theorem load_from_entry_rejected_witness:
  "ex_files ''far.txt'' = Inr ''rows=3\<newline>cols=3\<newline>(5, 0, 1)''
   \<and> stripped_lines ''rows=3\<newline>cols=3\<newline>(5, 0, 1)'' = [''rows=3'', ''cols=3'', ''(5, 0, 1)'']
   \<and> startswith ''rows=3'' ''rows='' \<and> startswith ''cols=3'' ''cols=''
   \<and> header_int 4300 ''rows=3'' = Some 3 \<and> header_int 4300 ''cols=3'' = Some 3
   \<and> ''(5, 0, 1)'' \<in> set [''(5, 0, 1)'']
   \<and> out_of_range_entry 4300 3 3 ''(5, 0, 1)''
   \<and> load_from 4300 ex_files ''far.txt'' = Inl (ValueError ''Invalid file format'')"
proof -
  have h: "stripped_lines ''rows=3\<newline>cols=3\<newline>(5, 0, 1)'' = [''rows=3'', ''cols=3'', ''(5, 0, 1)'']"
    "startswith ''rows=3'' ''rows=''" "startswith ''cols=3'' ''cols=''"
    "header_int 4300 ''rows=3'' = Some 3" "header_int 4300 ''cols=3'' = Some 3"
    "''(5, 0, 1)'' \<in> set [''(5, 0, 1)'']"
    "out_of_range_entry 4300 3 3 ''(5, 0, 1)''"
    by code_simp+
  from load_from_entry_rejected
    [of ex_files "''far.txt''" "''rows=3\<newline>cols=3\<newline>(5, 0, 1)''" "''rows=3''" "''cols=3''"
      "[''(5, 0, 1)'']" 4300 3 3 "''(5, 0, 1)''", OF ex_files_simps(2) h(1-6)] h(7)
  have "load_from 4300 ex_files ''far.txt'' = Inl (ValueError ''Invalid file format'')"
    by simp
  with ex_files_simps(2) h show ?thesis by simp
qed

text \<open>
  Claim C7 as stated fails: the body line \<^verbatim>\<open>(5, 0, 1)\<close>, out of range for a 3 x 3
  header, and the body line \<^verbatim>\<open>(1,2)\<close>, which lacks a field, give the same failure, so
  the failure of an entry out of range is not of a kind of its own.
\<close>

theorem entry_errors_same_counterexample:
  "load_from 4300 ex_files ''far.txt'' = Inl (ValueError ''Invalid file format'')
   \<and> load_from 4300 ex_files ''short.txt'' = Inl (ValueError ''Invalid file format'')
   \<and> load_from 4300 ex_files ''far.txt'' = load_from 4300 ex_files ''short.txt''"
  using ex_load(2,3) by simp

text \<open>
  Claim C2. Every matrix that construction, successful \<^verbatim>\<open>set\<close> calls, loading,
  addition, subtraction and multiplication can produce stores no zero. On such a matrix,
  \<^verbatim>\<open>set(r, c, 0)\<close> at a coordinate within the extents succeeds, and afterwards
  \<^verbatim>\<open>get(r, c)\<close> is 0 and the coordinate has no stored entry, whether or not it had one
  before.
\<close>

theorem no_stored_zero:
  assumes "reachable m"
  shows "nonzero m
       \<and> (\<forall>r c. 0 \<le> r \<and> r < rows m \<and> 0 \<le> c \<and> c < cols m \<longrightarrow>
            (\<exists>m'. set_at m r c 0 = Inr m' \<and> get_at m' r c = 0 \<and> (r, c) \<notin> stored m'))"
proof -
  have "\<exists>m'. set_at m r c 0 = Inr m' \<and> get_at m' r c = 0 \<and> (r, c) \<notin> stored m'"
    if "0 \<le> r \<and> r < rows m \<and> 0 \<le> c \<and> c < cols m" for r c
    using that
    by (simp add: set_at_def get_at_def dict_get_delete stored_def delete_notin_dom)
  then show ?thesis
    using reachable_valid [OF assms] by (simp add: valid_def)
qed

theorem no_stored_zero_witness:
  "reachable \<lparr>rows = 2, cols = 2, data = [((1, 0), 7)]\<rparr>
   \<and> nonzero \<lparr>rows = 2, cols = 2, data = [((1, 0), 7)]\<rparr>
   \<and> (\<exists>m'. set_at \<lparr>rows = 2, cols = 2, data = [((1, 0), 7)]\<rparr> 1 0 0 = Inr m'
         \<and> get_at m' 1 0 = 0 \<and> (1, 0) \<notin> stored m')
   \<and> (\<exists>m'. set_at \<lparr>rows = 2, cols = 2, data = [((1, 0), 7)]\<rparr> 0 1 0 = Inr m'
         \<and> get_at m' 0 1 = 0 \<and> (0, 1) \<notin> stored m')
   \<and> set_at \<lparr>rows = 2, cols = 2, data = [((1, 0), 7)]\<rparr> 1 0 0
       = Inr \<lparr>rows = 2, cols = 2, data = []\<rparr>"
proof -
  let ?m = "\<lparr>rows = 2, cols = 2, data = [((1, 0), 7)]\<rparr>"
  have "set_at (matrix_init 2 2) 1 0 7 = Inr ?m"
    by (simp add: set_at_def matrix_init_def)
  then have r: "reachable ?m"
    by (rule reachable.by_set [OF reachable.by_init])
  from no_stored_zero [OF r]
  have "nonzero ?m"
    and "\<exists>m'. set_at ?m 1 0 0 = Inr m' \<and> get_at m' 1 0 = 0 \<and> (1, 0) \<notin> stored m'"
    and "\<exists>m'. set_at ?m 0 1 0 = Inr m' \<and> get_at m' 0 1 = 0 \<and> (0, 1) \<notin> stored m'"
    by simp_all
  moreover have "set_at ?m 1 0 0 = Inr \<lparr>rows = 2, cols = 2, data = []\<rparr>"
    by (simp add: set_at_def)
  ultimately show ?thesis using r by simp
qed

text \<open>
  Claim C5 asks \<^verbatim>\<open>get\<close> to fail with an index error outside the extents, as \<^verbatim>\<open>set\<close>
  does. The code of \<^verbatim>\<open>get\<close> has no such check: on the empty 3 x 3 matrix,
  \<^verbatim>\<open>get(5, 7)\<close> returns 0, where \<^verbatim>\<open>set(5, 7, 1)\<close> raises \<^verbatim>\<open>IndexError\<close> for the same
  coordinates.
\<close>

theorem get_out_of_bounds_unchecked:
  "get_at (matrix_init 3 3) 5 7 = 0
   \<and> set_at (matrix_init 3 3) 5 7 1 = Inl (IndexError ''Invalid matrix index'')"
  by (simp add: get_at_def dict_get_def matrix_init_def set_at_def)

end
